theory Spec2Isabelle
  imports Main "HOL-Library.Sublist" "HOL-Library.Char_ord" "HOL-Library.List_Lexorder"
    "HOL-Library.AList"
begin

section \<open>Lexical path functions of the Go library\<close>

text \<open>
  The program manipulates paths as strings through \<^verbatim>\<open>path/filepath\<close> and
  \<^verbatim>\<open>strings\<close>. The functions below follow the documented behaviour of the Unix
  versions of \<^verbatim>\<open>strings.Split\<close>, \<^verbatim>\<open>filepath.Clean\<close>, \<^verbatim>\<open>filepath.Join\<close>,
  \<^verbatim>\<open>filepath.IsAbs\<close>, \<^verbatim>\<open>filepath.Abs\<close> and \<^verbatim>\<open>filepath.Base\<close>.
\<close>

fun splitOn :: "char \<Rightarrow> string \<Rightarrow> string list" where
  "splitOn c [] = [[]]"
| "splitOn c (x # xs) =
     (if x = c then [] # splitOn c xs
      else (case splitOn c xs of [] \<Rightarrow> [[x]] | y # ys \<Rightarrow> (x # y) # ys))"

definition components :: "string \<Rightarrow> string list" where
  "components s = filter (\<lambda>c. c \<noteq> []) (splitOn (CHR ''/'') s)"

fun joinSep :: "string list \<Rightarrow> string" where
  "joinSep [] = []"
| "joinSep [c] = c"
| "joinSep (c # d # cs) = c @ ''/'' @ joinSep (d # cs)"

text \<open>
  \<^verbatim>\<open>Clean\<close>: the elements are processed left to right against the output built so
  far (kept reversed in \<open>out\<close>): a \<^verbatim>\<open>.\<close> is dropped, a \<^verbatim>\<open>..\<close> removes the element
  before it, is dropped at the root of a rooted path and is kept otherwise.
\<close>

fun cleanElems :: "bool \<Rightarrow> string list \<Rightarrow> string list \<Rightarrow> string list" where
  "cleanElems rooted out [] = rev out"
| "cleanElems rooted out (c # cs) =
     (if c = ''.'' then cleanElems rooted out cs
      else if c = ''..'' then
        (case out of
           [] \<Rightarrow> if rooted then cleanElems rooted out cs else cleanElems rooted [c] cs
         | e # below \<Rightarrow>
             if e = ''..'' then cleanElems rooted (c # out) cs
             else cleanElems rooted below cs)
      else cleanElems rooted (c # out) cs)"

definition IsAbs :: "string \<Rightarrow> bool" where
  "IsAbs p \<longleftrightarrow> prefix ''/'' p"

definition Clean :: "string \<Rightarrow> string" where
  "Clean p =
     (let body = joinSep (cleanElems (IsAbs p) [] (components p))
      in if IsAbs p then ''/'' @ body else if body = [] then ''.'' else body)"

definition Join :: "string list \<Rightarrow> string" where
  "Join elems =
     (let ne = filter (\<lambda>e. e \<noteq> []) elems
      in if ne = [] then [] else Clean (joinSep ne))"

definition Abs :: "string \<Rightarrow> string \<Rightarrow> string" where
  "Abs wd p = (if IsAbs p then Clean p else Join [wd, p])"

definition Base :: "string \<Rightarrow> string" where
  "Base p =
     (if p = [] then ''.''
      else (case components p of [] \<Rightarrow> ''/'' | c # cs \<Rightarrow> last (c # cs)))"

text \<open>\<^verbatim>\<open>strings.Replace(s, old, new, 1)\<close> for a one-character \<open>old\<close>.\<close>

fun replaceFirst :: "char \<Rightarrow> string \<Rightarrow> string \<Rightarrow> string" where
  "replaceFirst c new [] = []"
| "replaceFirst c new (x # xs) = (if x = c then new @ xs else x # replaceFirst c new xs)"

definition TrimSuffix :: "string \<Rightarrow> string \<Rightarrow> string" where
  "TrimSuffix s suf = (if suffix suf s then take (length s - length suf) s else s)"

section \<open>Configuration (internal/config)\<close>

type_synonym path = "string list"

record Config =
  TrashDir :: path
  RetentionDays :: int
  ProtectedPaths :: "string list"
  ProtectedBehavior :: string
  VerboseWarnings :: bool

section \<open>Path classification (internal/protect)\<close>

text \<open>
  What \<^verbatim>\<open>Check\<close> reads from the process and the library: the working directory
  (through \<^verbatim>\<open>filepath.Abs\<close>), the user's home directory as \<^verbatim>\<open>os.UserHomeDir\<close>
  would report it (\<^verbatim>\<open>Check\<close> never asks for it), \<^verbatim>\<open>filepath.Glob\<close> and
  \<^verbatim>\<open>filepath.Match\<close>. The two library matchers are parameters: \<open>None\<close> is a
  returned error.
\<close>

record Host =
  workDir :: string
  homeDir :: string
  Glob :: "string \<Rightarrow> string list option"
  Match :: "string \<Rightarrow> string \<Rightarrow> bool option"

record Status =
  Protected :: bool
  Reason :: string

definition builtinProtectedPaths :: "string list" where
  "builtinProtectedPaths =
     [''/'', ''/bin'', ''/boot'', ''/dev'', ''/etc'', ''/home'', ''/lib'', ''/lib64'',
      ''/opt'', ''/proc'', ''/root'', ''/run'', ''/sbin'', ''/srv'', ''/sys'', ''/tmp'',
      ''/usr'', ''/var'']"

definition backslash :: char where
  "backslash = CHR 0x5C"

definition isWildcardRoot :: "string \<Rightarrow> bool" where
  "isWildcardRoot p \<longleftrightarrow> p = ''/*'' \<or> p = [backslash, CHR ''*'']"

definition isGitPath :: "Host \<Rightarrow> string \<Rightarrow> bool" where
  "isGitPath h absPath =
     (if Base absPath = ''.git'' then True
      else (case Glob h (Join [absPath, ''.git'']) of
              Some (m # ms) \<Rightarrow> True
            | _ \<Rightarrow> False))"

text \<open>The loop over the built-in table: the first rule that matches returns.\<close>

fun checkBuiltin :: "string \<Rightarrow> bool \<Rightarrow> string list \<Rightarrow> Status option" where
  "checkBuiltin absPath recursive [] = None"
| "checkBuiltin absPath recursive (protected # rest) =
     (if absPath = protected \<or> absPath = protected @ ''/'' then
        Some \<lparr>Protected = True, Reason = ''System directory is protected: '' @ protected\<rparr>
      else if recursive \<and> prefix (absPath @ ''/'') protected then
        Some \<lparr>Protected = True,
              Reason = ''Path contains protected system directory: '' @ protected\<rparr>
      else checkBuiltin absPath recursive rest)"

text \<open>
  The expansion of a leading \<^verbatim>\<open>~\<close>: the replacement is
  \<^verbatim>\<open>filepath.Abs(filepath.Join("~"))\<close>.
\<close>

definition expandPattern :: "Host \<Rightarrow> string \<Rightarrow> string" where
  "expandPattern h pattern =
     (if prefix ''~'' pattern
      then replaceFirst (CHR ''~'') (Abs (workDir h) (Join [''~''])) pattern
      else pattern)"

fun checkUser :: "Host \<Rightarrow> string \<Rightarrow> string list \<Rightarrow> Status option" where
  "checkUser h absPath [] = None"
| "checkUser h absPath (p # rest) =
     (let pattern = expandPattern h p in
      if Match h pattern absPath = Some True then
        Some \<lparr>Protected = True, Reason = ''Path matches protected pattern: '' @ pattern\<rparr>
      else if suffix ''/**'' pattern \<and> prefix (TrimSuffix pattern ''/**'') absPath then
        Some \<lparr>Protected = True,
              Reason = ''Path is under protected directory: '' @ TrimSuffix pattern ''/**''\<rparr>
      else checkUser h absPath rest)"

definition Check :: "Host \<Rightarrow> Config \<Rightarrow> string \<Rightarrow> bool \<Rightarrow> Status" where
  "Check h cfg p recursive =
     (let absPath = Clean p in
      if absPath = ''/'' \<or> absPath = [backslash] then
        \<lparr>Protected = True, Reason = ''Root directory is always protected''\<rparr>
      else if isWildcardRoot absPath then
        \<lparr>Protected = True, Reason = ''Wildcard patterns targeting root level are blocked''\<rparr>
      else (case checkBuiltin absPath recursive builtinProtectedPaths of
              Some s \<Rightarrow> s
            | None \<Rightarrow>
                if isGitPath h absPath then
                  \<lparr>Protected = True,
                   Reason = ''.git directory or repository root is protected''\<rparr>
                else (case checkUser h absPath (ProtectedPaths cfg) of
                        Some s \<Rightarrow> s
                      | None \<Rightarrow> \<lparr>Protected = False, Reason = ''''\<rparr>)))"


section \<open>The file system\<close>

text \<open>
  Inside \<^verbatim>\<open>trash\<close> and \<^verbatim>\<open>restore\<close> a path is a clean absolute path, modelled as
  the list of its elements. Appending text to a path string (\<^verbatim>\<open>path + ".saferm-meta"\<close>)
  extends its last element, and \<^verbatim>\<open>strings.HasSuffix\<close> on a path looks at its last
  element, since neither suffix of this program holds a separator.
\<close>

definition addExt :: "path \<Rightarrow> string \<Rightarrow> path" where
  "addExt p ext = (if p = [] then [ext] else butlast p @ [last p @ ext])"

definition hasExt :: "path \<Rightarrow> string \<Rightarrow> bool" where
  "hasExt p ext \<longleftrightarrow> p \<noteq> [] \<and> suffix ext (last p)"

type_synonym time = int

record Metadata =
  OriginalPath :: path
  DeletedAt :: time
  Hostname :: string
  IsDirectory :: bool

text \<open>
  The content of a file is modelled by what \<^verbatim>\<open>json.Unmarshal\<close> makes of it:
  \<open>MetaJSON m\<close> for bytes that decode to the record \<open>m\<close>, \<open>Bytes s\<close> for bytes that
  do not decode. The file system is a tree of regular files, directories and
  dangling symbolic links, each with its modification time. \<open>Link t\<close> is a
  symbolic link whose target is missing together with the directory that would
  hold it: every system call that follows the link fails with \<open>ENOENT\<close>, also one
  that would create the target, and only the calls that work on the link itself
  (\<^verbatim>\<open>lstat\<close>, \<^verbatim>\<open>rename\<close>, \<^verbatim>\<open>unlink\<close>) see it. Symbolic links with a target that exists
  or can be created, permission bits and permission failures are not modelled.
\<close>

datatype content = Bytes string | MetaJSON Metadata

datatype node = File content time | Dir time "(string \<times> node) list" | Link time

datatype info = FileInfo content time | DirInfo time | LinkInfo time

datatype errno = ENOENT | ENOTDIR | EISDIR | EEXIST | ENOTEMPTY | EINVAL | EXDEV | ENAMETOOLONG

fun infoOf :: "node \<Rightarrow> info" where
  "infoOf (File c t) = FileInfo c t"
| "infoOf (Dir t kids) = DirInfo t"
| "infoOf (Link t) = LinkInfo t"

fun IsDir :: "info \<Rightarrow> bool" where
  "IsDir (FileInfo c t) = False"
| "IsDir (DirInfo t) = True"
| "IsDir (LinkInfo t) = False"

fun ModTime :: "info \<Rightarrow> time" where
  "ModTime (FileInfo c t) = t"
| "ModTime (DirInfo t) = t"
| "ModTime (LinkInfo t) = t"

fun nodeAt :: "path \<Rightarrow> node \<Rightarrow> errno + node" where
  "nodeAt [] n = Inr n"
| "nodeAt (x # xs) (File c t) = Inl ENOTDIR"
| "nodeAt (x # xs) (Dir t kids) =
     (case map_of kids x of None \<Rightarrow> Inl ENOENT | Some k \<Rightarrow> nodeAt xs k)"
| "nodeAt (x # xs) (Link t) = Inl ENOENT"

text \<open>
  \<^verbatim>\<open>os.Lstat\<close> describes the entry at the path; \<^verbatim>\<open>os.Stat\<close> follows a symbolic link
  there and fails on a dangling one.
\<close>

definition Lstat :: "node \<Rightarrow> path \<Rightarrow> errno + info" where
  "Lstat fs p = (case nodeAt p fs of Inl e \<Rightarrow> Inl e | Inr n \<Rightarrow> Inr (infoOf n))"

definition Stat :: "node \<Rightarrow> path \<Rightarrow> errno + info" where
  "Stat fs p =
     (case nodeAt p fs of
        Inl e \<Rightarrow> Inl e
      | Inr (Link t) \<Rightarrow> Inl ENOENT
      | Inr n \<Rightarrow> Inr (infoOf n))"

definition IsNotExist :: "errno \<Rightarrow> bool" where
  "IsNotExist e \<longleftrightarrow> e = ENOENT"

definition present :: "node \<Rightarrow> path \<Rightarrow> bool" where
  "present fs p \<longleftrightarrow> (case Lstat fs p of Inl e \<Rightarrow> False | Inr i \<Rightarrow> True)"


text \<open>The entries of a directory, one per name, sorted by name as \<^verbatim>\<open>os.ReadDir\<close> returns them.\<close>

definition sortedKids :: "(string \<times> node) list \<Rightarrow> (string \<times> node) list" where
  "sortedKids kids = sort_key fst (AList.clearjunk kids)"

definition ReadDir :: "node \<Rightarrow> path \<Rightarrow> errno + (string \<times> info) list" where
  "ReadDir fs p =
     (case nodeAt p fs of
        Inl e \<Rightarrow> Inl e
      | Inr (File c t) \<Rightarrow> Inl ENOTDIR
      | Inr (Link t) \<Rightarrow> Inl ENOENT
      | Inr (Dir t kids) \<Rightarrow> Inr (map (\<lambda>(x, k). (x, infoOf k)) (sortedKids kids)))"

definition ReadFile :: "node \<Rightarrow> path \<Rightarrow> errno + content" where
  "ReadFile fs p =
     (case nodeAt p fs of
        Inl e \<Rightarrow> Inl e
      | Inr (File c t) \<Rightarrow> Inr c
      | Inr (Link t) \<Rightarrow> Inl ENOENT
      | Inr (Dir t kids) \<Rightarrow> Inl EISDIR)"

text \<open>
  Two tree edits carry every change: \<open>putNode\<close> sets the subtree at a path whose
  parent is a directory, \<open>delNode\<close> removes the subtree at a path. Both leave the
  tree alone where the parent is missing.
\<close>

fun putNode :: "path \<Rightarrow> node \<Rightarrow> node \<Rightarrow> node" where
  "putNode [] new n = new"
| "putNode (x # xs) new (File c t) = File c t"
| "putNode (x # xs) new (Dir t kids) =
     (if xs = [] then Dir t (AList.update x new kids)
      else (case map_of kids x of
              None \<Rightarrow> Dir t kids
            | Some k \<Rightarrow> Dir t (AList.update x (putNode xs new k) kids)))"
| "putNode (x # xs) new (Link t) = Link t"

fun delNode :: "path \<Rightarrow> node \<Rightarrow> node" where
  "delNode [] n = n"
| "delNode (x # xs) (File c t) = File c t"
| "delNode (x # xs) (Dir t kids) =
     (if xs = [] then Dir t (AList.delete x kids)
      else (case map_of kids x of
              None \<Rightarrow> Dir t kids
            | Some k \<Rightarrow> Dir t (AList.update x (delNode xs k) kids)))"
| "delNode (x # xs) (Link t) = Link t"

text \<open>
  \<^verbatim>\<open>os.MkdirAll\<close>: nothing to do for a directory, an error for a file and for a
  path through a file, else the missing directories are created, parents first.
  At a dangling link \<^verbatim>\<open>Stat\<close> fails, \<^verbatim>\<open>Mkdir\<close> fails with \<open>EEXIST\<close>, and \<^verbatim>\<open>Lstat\<close> then
  finds no directory, so the error of \<^verbatim>\<open>Mkdir\<close> is returned.
\<close>

fun mkdirPath :: "time \<Rightarrow> path \<Rightarrow> node \<Rightarrow> errno + node" where
  "mkdirPath now [] (File c t) = Inl ENOTDIR"
| "mkdirPath now [] (Dir t kids) = Inr (Dir t kids)"
| "mkdirPath now (x # xs) (File c t) = Inl ENOTDIR"
| "mkdirPath now (x # xs) (Dir t kids) =
     (case mkdirPath now xs (case map_of kids x of None \<Rightarrow> Dir now [] | Some k \<Rightarrow> k) of
        Inl e \<Rightarrow> Inl e
      | Inr k' \<Rightarrow> Inr (Dir t (AList.update x k' kids)))"
| "mkdirPath now p (Link t) = Inl EEXIST"

definition MkdirAll :: "time \<Rightarrow> node \<Rightarrow> path \<Rightarrow> errno + node" where
  "MkdirAll now fs p = mkdirPath now p fs"

definition WriteFile :: "time \<Rightarrow> node \<Rightarrow> path \<Rightarrow> content \<Rightarrow> errno + node" where
  "WriteFile now fs p c =
     (if p = [] then Inl EISDIR
      else (case nodeAt (butlast p) fs of
              Inl e \<Rightarrow> Inl e
            | Inr (File c' t) \<Rightarrow> Inl ENOTDIR
            | Inr (Link t) \<Rightarrow> Inl ENOENT
            | Inr (Dir t kids) \<Rightarrow>
                (case map_of kids (last p) of
                   Some (Dir t' kids') \<Rightarrow> Inl EISDIR
                 | Some (Link t') \<Rightarrow> Inl ENOENT
                 | _ \<Rightarrow> Inr (putNode p (File c now) fs))))"

definition Remove :: "node \<Rightarrow> path \<Rightarrow> errno + node" where
  "Remove fs p =
     (if p = [] then Inl EINVAL
      else (case nodeAt p fs of
              Inl e \<Rightarrow> Inl e
            | Inr (File c t) \<Rightarrow> Inr (delNode p fs)
            | Inr (Link t) \<Rightarrow> Inr (delNode p fs)
            | Inr (Dir t kids) \<Rightarrow> if kids = [] then Inr (delNode p fs) else Inl ENOTEMPTY))"

definition RemoveAll :: "node \<Rightarrow> path \<Rightarrow> errno + node" where
  "RemoveAll fs p = (if p = [] then Inl EINVAL else Inr (delNode p fs))"

text \<open>
  \<^verbatim>\<open>os.Rename\<close>. The mount points decide which paths share a device; a rename
  across devices fails with \<open>EXDEV\<close>, a directory cannot move below itself, a file
  or link cannot replace a directory, and a directory replaces only an empty
  directory. A link is moved, and replaced, as the entry it is.
\<close>

definition deviceOf :: "path list \<Rightarrow> path \<Rightarrow> path" where
  "deviceOf mounts p =
     fold (\<lambda>m best. if prefix m p \<and> length best \<le> length m then m else best) mounts []"

definition Rename :: "path list \<Rightarrow> node \<Rightarrow> path \<Rightarrow> path \<Rightarrow> errno + node" where
  "Rename mounts fs src dst =
     (if src = [] \<or> dst = [] then Inl EINVAL
      else (case nodeAt src fs of
        Inl e \<Rightarrow> Inl e
      | Inr n \<Rightarrow>
         (case nodeAt (butlast dst) fs of
            Inl e \<Rightarrow> Inl e
          | Inr (File c t) \<Rightarrow> Inl ENOTDIR
          | Inr (Link t) \<Rightarrow> Inl ENOENT
          | Inr (Dir t kids) \<Rightarrow>
              if deviceOf mounts src \<noteq> deviceOf mounts (butlast dst) then Inl EXDEV
              else if src = dst then Inr fs
              else if prefix src dst then Inl EINVAL
              else if prefix dst src then
                (case n of Dir t' kids' \<Rightarrow> Inl ENOTEMPTY | _ \<Rightarrow> Inl EISDIR)
              else (case (n, map_of kids (last dst)) of
                      (File c' t', Some (Dir t'' kids'')) \<Rightarrow> Inl EISDIR
                    | (Link t', Some (Dir t'' kids'')) \<Rightarrow> Inl EISDIR
                    | (Dir t' kids', Some (File c'' t'')) \<Rightarrow> Inl ENOTDIR
                    | (Dir t' kids', Some (Link t'')) \<Rightarrow> Inl ENOTDIR
                    | (Dir t' kids', Some (Dir t'' kids'')) \<Rightarrow>
                        if kids'' = [] then Inr (putNode dst n (delNode src fs))
                        else Inl ENOTEMPTY
                    | _ \<Rightarrow> Inr (putNode dst n (delNode src fs))))))"

text \<open>
  \<^verbatim>\<open>filepath.Walk\<close> visits the root and then, for a directory, its entries in
  lexical order, each directory before what it holds. The walk function is called
  with the \<^verbatim>\<open>Lstat\<close> of the path at the time of the visit. Both walk functions of
  this program return \<^verbatim>\<open>nil\<close> in every case, and neither changes an entry that is
  still to be visited, so the paths visited are those of the tree at the start.
\<close>

function walkNode :: "path \<Rightarrow> node \<Rightarrow> path list" where
  "walkNode p (File c t) = [p]"
| "walkNode p (Dir t kids) =
     p # concat (map (\<lambda>(x, k). walkNode (p @ [x]) k) (sortedKids kids))"
| "walkNode p (Link t) = [p]"
  by pat_completeness auto
termination
proof (relation "measure (\<lambda>(p, n). size n)")
  show "wf (measure (\<lambda>(p, n). size n))"
    by simp
next
  fix p :: path and t :: time and kids :: "(string \<times> node) list" and z x k
  assume "z \<in> set (sortedKids kids)" and "(x, k) = z"
  then have "(x, k) \<in> Map.graph (map_of kids)"
    by (simp add: sortedKids_def graph_map_of)
  then have "(x, k) \<in> set kids"
    by (simp add: in_graphD map_of_SomeD)
  then have "size k < size (Dir t kids)"
    by (induction kids) auto
  then show "((p @ [x], k), (p, Dir t kids)) \<in> measure (\<lambda>(p, n). size n)"
    by simp
qed

definition Walk :: "node \<Rightarrow> path \<Rightarrow> path list" where
  "Walk fs root = (case nodeAt root fs of Inl e \<Rightarrow> [root] | Inr n \<Rightarrow> walkNode root n)"

section \<open>Moving to the trash (internal/trash)\<close>

text \<open>
  What the trash reads from the system: the host name (\<open>None\<close> when
  \<^verbatim>\<open>os.Hostname\<close> fails), the clock, the rendering of a time in the layout
  \<^verbatim>\<open>20060102-150405\<close>, the mount points, and the number of directory levels the
  system's limit on the length of a path leaves below an item (past it the first
  system call on the longer path fails with \<open>ENAMETOOLONG\<close>). Time is counted in
  seconds on a clock whose days have 86400 seconds.
\<close>

record Os =
  hostName :: "string option"
  now :: time
  layout :: "time \<Rightarrow> string"
  mounts :: "path list"
  maxDepth :: nat

datatype error =
    OsError errno
  | JsonError
  | FailedToCreateTrashDir errno
  | NoItemFound path
  | DestinationExists path
  | FailedToCreateParent errno
  | FailedToRestore errno
  | NoSuchFile
  | IsADirectory
  | DirectoryNotEmpty
  | Blocked string string
  | BlockedDespiteForce string string
  | AbortedByUser
  | FailedToMove error

definition metaSuffix :: string where
  "metaSuffix = ''.saferm-meta''"

definition writeMetadata :: "time \<Rightarrow> node \<Rightarrow> path \<Rightarrow> Metadata \<Rightarrow> errno + node" where
  "writeMetadata t fs p meta = WriteFile t fs p (MetaJSON meta)"

definition GetMetadata :: "node \<Rightarrow> path \<Rightarrow> error + Metadata" where
  "GetMetadata fs trashPath =
     (case ReadFile fs (addExt trashPath metaSuffix) of
        Inl e \<Rightarrow> Inl (OsError e)
      | Inr (Bytes s) \<Rightarrow> Inl JsonError
      | Inr (MetaJSON meta) \<Rightarrow> Inr meta)"

text \<open>
  The copy functions return the file system they leave and the error, \<open>None\<close> for
  \<^verbatim>\<open>nil\<close>.
\<close>

definition copyFileAndDelete :: "time \<Rightarrow> node \<Rightarrow> path \<Rightarrow> path \<Rightarrow> node \<times> errno option" where
  "copyFileAndDelete t fs src dst =
     (case ReadFile fs src of
        Inl e \<Rightarrow> (fs, Some e)
      | Inr data \<Rightarrow>
         (case Stat fs src of
            Inl e \<Rightarrow> (fs, Some e)
          | Inr i \<Rightarrow>
             (case WriteFile t fs dst data of
                Inl e \<Rightarrow> (fs, Some e)
              | Inr fs1 \<Rightarrow>
                 (case Remove fs1 src of
                    Inl e \<Rightarrow> (fs1, Some e)
                  | Inr fs2 \<Rightarrow> (fs2, None)))))"

fun copyDirAndDelete :: "nat \<Rightarrow> time \<Rightarrow> node \<Rightarrow> path \<Rightarrow> path \<Rightarrow> node \<times> errno option"
  and copyEntries ::
    "nat \<Rightarrow> time \<Rightarrow> node \<Rightarrow> path \<Rightarrow> path \<Rightarrow> (string \<times> info) list \<Rightarrow> node \<times> errno option"
where
  "copyDirAndDelete 0 t fs src dst = (fs, Some ENAMETOOLONG)"
| "copyDirAndDelete (Suc d) t fs src dst =
     (case Stat fs src of
        Inl e \<Rightarrow> (fs, Some e)
      | Inr srcInfo \<Rightarrow>
         (case MkdirAll t fs dst of
            Inl e \<Rightarrow> (fs, Some e)
          | Inr fs1 \<Rightarrow>
             (case ReadDir fs1 src of
                Inl e \<Rightarrow> (fs1, Some e)
              | Inr entries \<Rightarrow>
                 (case copyEntries d t fs1 src dst entries of
                    (fs2, Some e) \<Rightarrow> (fs2, Some e)
                  | (fs2, None) \<Rightarrow>
                     (case RemoveAll fs2 src of
                        Inl e \<Rightarrow> (fs2, Some e)
                      | Inr fs3 \<Rightarrow> (fs3, None))))))"
| "copyEntries d t fs src dst [] = (fs, None)"
| "copyEntries d t fs src dst ((name, i) # rest) =
     (case (if IsDir i then copyDirAndDelete d t fs (src @ [name]) (dst @ [name])
            else copyFileAndDelete t fs (src @ [name]) (dst @ [name])) of
        (fs1, Some e) \<Rightarrow> (fs1, Some e)
      | (fs1, None) \<Rightarrow> copyEntries d t fs1 src dst rest)"

definition copyAndDelete :: "nat \<Rightarrow> time \<Rightarrow> node \<Rightarrow> path \<Rightarrow> path \<Rightarrow> bool \<Rightarrow> node \<times> errno option" where
  "copyAndDelete d t fs src dst isDir =
     (if isDir then copyDirAndDelete d t fs src dst else copyFileAndDelete t fs src dst)"

text \<open>
  \<^verbatim>\<open>Move\<close>. The destination is the trash directory, the host name and the
  elements of the absolute path (its leading separator stripped).
\<close>

definition hostOf :: "Os \<Rightarrow> string" where
  "hostOf os = (case hostName os of None \<Rightarrow> ''unknown'' | Some h \<Rightarrow> h)"

definition trashTarget :: "Os \<Rightarrow> Config \<Rightarrow> path \<Rightarrow> path" where
  "trashTarget os cfg absPath = TrashDir cfg @ [hostOf os] @ absPath"

definition trashDest :: "Os \<Rightarrow> Config \<Rightarrow> node \<Rightarrow> path \<Rightarrow> path" where
  "trashDest os cfg fs absPath =
     (case Stat fs (trashTarget os cfg absPath) of
        Inr i \<Rightarrow> addExt (trashTarget os cfg absPath) (''.'' @ layout os (now os))
      | Inl e \<Rightarrow> trashTarget os cfg absPath)"

definition Move :: "Os \<Rightarrow> Config \<Rightarrow> node \<Rightarrow> path \<Rightarrow> node \<times> (error + path)" where
  "Move os cfg fs absPath =
     (case Lstat fs absPath of
        Inl e \<Rightarrow> (fs, Inl (OsError e))
      | Inr i \<Rightarrow>
         (let trashPath = trashDest os cfg fs absPath in
          case MkdirAll (now os) fs (butlast trashPath) of
            Inl e \<Rightarrow> (fs, Inl (FailedToCreateTrashDir e))
          | Inr fs1 \<Rightarrow>
             (case (case Rename (mounts os) fs1 absPath trashPath of
                      Inr fs2 \<Rightarrow> (fs2, None)
                    | Inl e \<Rightarrow>
                        copyAndDelete (maxDepth os) (now os) fs1 absPath trashPath (IsDir i)) of
                (fs2, Some e) \<Rightarrow> (fs2, Inl (OsError e))
              | (fs2, None) \<Rightarrow>
                 (case writeMetadata (now os) fs2 (addExt trashPath metaSuffix)
                         \<lparr>OriginalPath = absPath, DeletedAt = now os,
                          Hostname = hostOf os, IsDirectory = IsDir i\<rparr> of
                    Inl e \<Rightarrow> (fs2, Inr trashPath)
                  | Inr fs3 \<Rightarrow> (fs3, Inr trashPath)))))"

section \<open>Listing, restoring, purging and emptying (internal/restore)\<close>

text \<open>The walk function of \<^verbatim>\<open>findTrashItems\<close>, in the order of its checks.\<close>

definition visitItem :: "node \<Rightarrow> path \<Rightarrow> path \<Rightarrow> path list \<Rightarrow> path list" where
  "visitItem fs trashDir p items =
     (case Lstat fs p of
        Inl e \<Rightarrow> items
      | Inr i \<Rightarrow>
         if hasExt p metaSuffix then items
         else if p = trashDir then items
         else if IsDir i \<and>
                 (case ReadDir fs p of
                    Inl e \<Rightarrow> True
                  | Inr entries \<Rightarrow> \<not> list_all (\<lambda>(x, j). suffix metaSuffix x) entries)
              then items
         else (case Stat fs (addExt p metaSuffix) of
                 Inl e \<Rightarrow> items
               | Inr j \<Rightarrow> items @ [p]))"

definition findTrashItems :: "node \<Rightarrow> path \<Rightarrow> path list" where
  "findTrashItems fs trashDir = fold (visitItem fs trashDir) (Walk fs trashDir) []"


text \<open>
  The selection loop of \<^verbatim>\<open>Restore\<close>: \<open>matched\<close> holds \<^verbatim>\<open>matchedItem\<close> and
  \<^verbatim>\<open>matchedMeta\<close>, \<open>None\<close> while both are unset.
\<close>

fun selectItem :: "node \<Rightarrow> path \<Rightarrow> path list \<Rightarrow> (path \<times> Metadata) option \<Rightarrow> (path \<times> Metadata) option" where
  "selectItem fs originalPath [] matched = matched"
| "selectItem fs originalPath (item # rest) matched =
     (case GetMetadata fs item of
        Inl e \<Rightarrow> selectItem fs originalPath rest matched
      | Inr meta \<Rightarrow>
         if OriginalPath meta = originalPath then
           (case matched of
              None \<Rightarrow> selectItem fs originalPath rest (Some (item, meta))
            | Some (matchedItem, matchedMeta) \<Rightarrow>
                if DeletedAt matchedMeta < DeletedAt meta
                then selectItem fs originalPath rest (Some (item, meta))
                else selectItem fs originalPath rest matched)
         else selectItem fs originalPath rest matched)"

definition Restore :: "Os \<Rightarrow> Config \<Rightarrow> node \<Rightarrow> path \<Rightarrow> node \<times> error option" where
  "Restore os cfg fs originalPath =
     (case selectItem fs originalPath (findTrashItems fs (TrashDir cfg)) None of
        None \<Rightarrow> (fs, Some (NoItemFound originalPath))
      | Some (matchedItem, matchedMeta) \<Rightarrow>
         (case Stat fs originalPath of
            Inr i \<Rightarrow> (fs, Some (DestinationExists originalPath))
          | Inl e \<Rightarrow>
             (case MkdirAll (now os) fs (butlast originalPath) of
                Inl e \<Rightarrow> (fs, Some (FailedToCreateParent e))
              | Inr fs1 \<Rightarrow>
                 (case Rename (mounts os) fs1 matchedItem originalPath of
                    Inl e \<Rightarrow> (fs1, Some (FailedToRestore e))
                  | Inr fs2 \<Rightarrow>
                     (case Remove fs2 (addExt matchedItem metaSuffix) of
                        Inl e \<Rightarrow> (fs2, None)
                      | Inr fs3 \<Rightarrow> (fs3, None))))))"

text \<open>\<^verbatim>\<open>time.Now().AddDate(0, 0, -days)\<close>.\<close>

definition AddDate :: "time \<Rightarrow> int \<Rightarrow> time" where
  "AddDate t days = t + 86400 * days"

text \<open>The body of the loop of \<^verbatim>\<open>Purge\<close>; the state is the file system and \<^verbatim>\<open>purged\<close>.\<close>

definition purgeItem :: "time \<Rightarrow> path \<Rightarrow> node \<times> nat \<Rightarrow> node \<times> nat" where
  "purgeItem cutoff item st =
     (case st of (fs, purged) \<Rightarrow>
       (case GetMetadata fs item of
          Inl e \<Rightarrow>
            (case Stat fs item of
               Inl e' \<Rightarrow> (fs, purged)
             | Inr i \<Rightarrow>
                 if ModTime i < cutoff then
                   (case RemoveAll fs item of
                      Inl e' \<Rightarrow> (fs, purged)
                    | Inr fs1 \<Rightarrow> (fs1, purged + 1))
                 else (fs, purged))
        | Inr meta \<Rightarrow>
            if DeletedAt meta < cutoff then
              (case RemoveAll fs item of
                 Inl e \<Rightarrow> (fs, purged)
               | Inr fs1 \<Rightarrow>
                   (case Remove fs1 (addExt item metaSuffix) of
                      Inl e \<Rightarrow> (fs1, purged + 1)
                    | Inr fs2 \<Rightarrow> (fs2, purged + 1)))
            else (fs, purged)))"

definition Purge :: "Os \<Rightarrow> Config \<Rightarrow> node \<Rightarrow> int \<Rightarrow> node \<times> nat" where
  "Purge os cfg fs days =
     (if (case Stat fs (TrashDir cfg) of Inl e \<Rightarrow> IsNotExist e | Inr i \<Rightarrow> False)
      then (fs, 0)
      else fold (purgeItem (AddDate (now os) (- days))) (findTrashItems fs (TrashDir cfg)) (fs, 0))"

text \<open>The walk function of \<^verbatim>\<open>cleanEmptyDirs\<close>, on the file system as it is at the visit.\<close>

definition cleanVisit :: "path \<Rightarrow> path \<Rightarrow> node \<Rightarrow> node" where
  "cleanVisit dir p fs =
     (case Lstat fs p of
        Inl e \<Rightarrow> fs
      | Inr i \<Rightarrow>
         if \<not> IsDir i \<or> p = dir then fs
         else (case ReadDir fs p of
                 Inr [] \<Rightarrow> (case Remove fs p of Inl e \<Rightarrow> fs | Inr fs1 \<Rightarrow> fs1)
               | _ \<Rightarrow> fs))"

definition cleanEmptyDirs :: "node \<Rightarrow> path \<Rightarrow> node" where
  "cleanEmptyDirs fs dir = fold (cleanVisit dir) (Walk fs dir) fs"

text \<open>
  \<^verbatim>\<open>fmt.Scanln(&response)\<close> on standard input, a stream of characters. It skips
  blanks, stores the characters up to the next white space in \<^verbatim>\<open>response\<close>, and
  then reads on to the end of the line, stopping with an error behind the first
  character there that is not a blank. A line break or the end of the input in
  place of the operand is an error, and \<^verbatim>\<open>response\<close> stays empty. The program ignores
  the error. \<open>Scanln\<close> returns \<^verbatim>\<open>response\<close> and the input left unread. White space is
  that of ASCII.
\<close>

definition isSpace :: "char \<Rightarrow> bool" where
  "isSpace c \<longleftrightarrow> c \<in> {CHR 0x09, CHR 0x0A, CHR 0x0B, CHR 0x0C, CHR 0x0D, CHR 0x20}"

text \<open>\<^verbatim>\<open>SkipSpace\<close>: \<open>False\<close> when it stops at a line break, which it has read.\<close>

fun skipSpace :: "string \<Rightarrow> bool \<times> string" where
  "skipSpace [] = (True, [])"
| "skipSpace (c # cs) =
     (if c = CHR 0x0A then (False, cs)
      else if isSpace c then skipSpace cs
      else (True, c # cs))"

text \<open>The check for the end of the line behind the operand.\<close>

fun endOfLine :: "string \<Rightarrow> string" where
  "endOfLine [] = []"
| "endOfLine (c # cs) =
     (if c = CHR 0x0A then cs
      else if isSpace c then endOfLine cs
      else cs)"

definition Scanln :: "string \<Rightarrow> string \<times> string" where
  "Scanln stdin =
     (case skipSpace stdin of
        (False, rest) \<Rightarrow> ([], rest)
      | (True, rest) \<Rightarrow>
          if rest = [] then ([], [])
          else (takeWhile (\<lambda>c. \<not> isSpace c) rest,
                endOfLine (dropWhile (\<lambda>c. \<not> isSpace c) rest)))"

definition emptyItem :: "path \<Rightarrow> node \<times> nat \<Rightarrow> node \<times> nat" where
  "emptyItem item st =
     (case st of (fs, deleted) \<Rightarrow>
       (case RemoveAll fs item of
          Inl e \<Rightarrow> (fs, deleted)
        | Inr fs1 \<Rightarrow>
            (case Remove fs1 (addExt item metaSuffix) of
               Inl e \<Rightarrow> (fs1, deleted + 1)
             | Inr fs2 \<Rightarrow> (fs2, deleted + 1))))"

text \<open>\<^verbatim>\<open>Empty\<close> returns the file system, what is left of standard input and \<^verbatim>\<open>deleted\<close>.\<close>

definition Empty :: "Config \<Rightarrow> node \<Rightarrow> string \<Rightarrow> node \<times> string \<times> nat" where
  "Empty cfg fs stdin =
     (if (case Stat fs (TrashDir cfg) of Inl e \<Rightarrow> IsNotExist e | Inr i \<Rightarrow> False)
      then (fs, stdin, 0)
      else if findTrashItems fs (TrashDir cfg) = [] then (fs, stdin, 0)
      else (case Scanln stdin of (response, stdin') \<Rightarrow>
              if response \<noteq> ''yes I am sure'' then (fs, stdin', 0)
              else (case fold emptyItem (findTrashItems fs (TrashDir cfg)) (fs, 0) of
                      (fs1, deleted) \<Rightarrow> (cleanEmptyDirs fs1 (TrashDir cfg), stdin', deleted))))"

section \<open>The remove operation (cmd/rm)\<close>

record Options =
  Force :: bool
  Interactive :: bool
  Recursive :: bool
  RemoveEmptyDirs :: bool
  Verbose :: bool

text \<open>
  \<^verbatim>\<open>processPath\<close> returns the file system, what is left of standard input and the
  error, \<open>None\<close> for \<^verbatim>\<open>nil\<close>. Its three gates are written as functions that return
  the outcome when \<^verbatim>\<open>processPath\<close> returns at the gate.
\<close>

definition directoryGate :: "Options \<Rightarrow> node \<Rightarrow> path \<Rightarrow> info \<Rightarrow> error option" where
  "directoryGate opts fs absPath i =
     (if IsDir i \<and> \<not> Recursive opts then
        (if RemoveEmptyDirs opts then
           (case ReadDir fs absPath of
              Inl e \<Rightarrow> Some (OsError e)
            | Inr entries \<Rightarrow> if entries \<noteq> [] then Some DirectoryNotEmpty else None)
         else Some IsADirectory)
      else None)"

definition protectionGate ::
    "Config \<Rightarrow> Options \<Rightarrow> string \<Rightarrow> Status \<Rightarrow> string \<Rightarrow> string \<times> error option" where
  "protectionGate cfg opts absPath status stdin =
     (if Protected status then
        (if ProtectedBehavior cfg = ''block'' then (stdin, Some (Blocked absPath (Reason status)))
         else if \<not> Force opts then
           (case Scanln stdin of (response, stdin') \<Rightarrow>
              if response \<noteq> ''yes I am sure'' then (stdin', Some AbortedByUser)
              else (stdin', None))
         else (stdin, Some (BlockedDespiteForce absPath (Reason status))))
      else (stdin, None))"

definition interactiveGate :: "Options \<Rightarrow> string \<Rightarrow> string \<times> bool" where
  "interactiveGate opts stdin =
     (if Interactive opts \<and> \<not> Force opts then
        (case Scanln stdin of (response, stdin') \<Rightarrow>
           (stdin', response \<noteq> ''y'' \<and> response \<noteq> ''yes''))
      else (stdin, False))"

definition processPath ::
    "Host \<Rightarrow> Os \<Rightarrow> Config \<Rightarrow> Options \<Rightarrow> node \<Rightarrow> string \<Rightarrow> string
      \<Rightarrow> node \<times> string \<times> error option" where
  "processPath h os cfg opts fs stdin p =
     (let absPath = Abs (workDir h) p in
      case Lstat fs (components absPath) of
        Inl e \<Rightarrow>
          if IsNotExist e then (if Force opts then (fs, stdin, None) else (fs, stdin, Some NoSuchFile))
          else (fs, stdin, Some (OsError e))
      | Inr i \<Rightarrow>
         (case directoryGate opts fs (components absPath) i of
            Some e \<Rightarrow> (fs, stdin, Some e)
          | None \<Rightarrow>
             (case protectionGate cfg opts absPath (Check h cfg absPath (Recursive opts)) stdin of
                (stdin1, Some e) \<Rightarrow> (fs, stdin1, Some e)
              | (stdin1, None) \<Rightarrow>
                 (case interactiveGate opts stdin1 of
                    (stdin2, True) \<Rightarrow> (fs, stdin2, None)
                  | (stdin2, False) \<Rightarrow>
                     (case Move os cfg fs (components absPath) of
                        (fs1, Inl e) \<Rightarrow> (fs1, stdin2, Some (FailedToMove e))
                      | (fs1, Inr trashPath) \<Rightarrow> (fs1, stdin2, None))))))"

section \<open>Views of the file system used in the statements\<close>

text \<open>The content of the regular file at a path, if there is one.\<close>

definition fileAt :: "node \<Rightarrow> path \<Rightarrow> content option" where
  "fileAt fs p = (case nodeAt p fs of Inr (File c t) \<Rightarrow> Some c | _ \<Rightarrow> None)"

text \<open>
  A path is outside a move from \<open>src\<close> to \<open>dst\<close> when it is neither at or below
  one of them nor above the destination.
\<close>

definition outside :: "path \<Rightarrow> path \<Rightarrow> path \<Rightarrow> bool" where
  "outside src dst q \<longleftrightarrow> \<not> prefix src q \<and> \<not> prefix dst q \<and> \<not> prefix q dst"

text \<open>
  What a move from \<open>src\<close> to \<open>dst\<close> that ends with the error \<open>r\<close> may do: paths
  outside it keep what they are; every file below the source is afterwards at its
  place or at the same place below the destination, with its content; and when
  the move ends without an error, all of them are below the destination.
\<close>

definition relocates :: "path \<Rightarrow> path \<Rightarrow> node \<Rightarrow> node \<Rightarrow> errno option \<Rightarrow> bool" where
  "relocates src dst fs fs' r \<longleftrightarrow>
     (\<forall>q. outside src dst q \<longrightarrow> Lstat fs' q = Lstat fs q)
     \<and> (\<forall>rel c. fileAt fs (src @ rel) = Some c \<longrightarrow>
           fileAt fs' (src @ rel) = Some c \<or> fileAt fs' (dst @ rel) = Some c)
     \<and> (r = None \<longrightarrow>
          (\<forall>rel c. fileAt fs (src @ rel) = Some c \<longrightarrow> fileAt fs' (dst @ rel) = Some c))"

text \<open>The same for the loop over the entries \<open>names\<close> of the source directory.\<close>

definition relocatesEntries ::
    "path \<Rightarrow> path \<Rightarrow> string set \<Rightarrow> node \<Rightarrow> node \<Rightarrow> errno option \<Rightarrow> bool" where
  "relocatesEntries src dst names fs fs' r \<longleftrightarrow>
     (\<forall>q. (\<forall>x\<in>names. outside (src @ [x]) (dst @ [x]) q) \<longrightarrow> Lstat fs' q = Lstat fs q)
     \<and> (\<forall>x\<in>names. \<forall>rel c. fileAt fs (src @ x # rel) = Some c \<longrightarrow>
           fileAt fs' (src @ x # rel) = Some c \<or> fileAt fs' (dst @ x # rel) = Some c)
     \<and> (r = None \<longrightarrow>
          (\<forall>x\<in>names. \<forall>rel c. fileAt fs (src @ x # rel) = Some c \<longrightarrow>
             fileAt fs' (dst @ x # rel) = Some c))"

section \<open>Sample states\<close>

text \<open>The concrete hosts, configurations and file systems the closed theorems evaluate.\<close>

definition sampleOs :: Os where
  "sampleOs = \<lparr>hostName = Some ''h'', now = 100, layout = (\<lambda>t. ''stamp''),
     mounts = [[]], maxDepth = 8\<rparr>"

definition sampleConfig :: Config where
  "sampleConfig = \<lparr>TrashDir = [''t''], RetentionDays = 30, ProtectedPaths = [],
     ProtectedBehavior = ''confirm'', VerboseWarnings = True\<rparr>"

definition sampleHost :: Host where
  "sampleHost = \<lparr>workDir = ''/work'', homeDir = ''/home/u'', Glob = (\<lambda>p. Some []),
     Match = (\<lambda>pattern name. Some (pattern = name))\<rparr>"

definition forceOptions :: Options where
  "forceOptions = \<lparr>Force = True, Interactive = False, Recursive = True,
     RemoveEmptyDirs = False, Verbose = False\<rparr>"

text \<open>A home directory with a file \<^verbatim>\<open>/home/u/f\<close>, a directory \<^verbatim>\<open>/home/u/d\<close> holding one file, and an empty trash \<^verbatim>\<open>/t\<close>.\<close>

definition homeTree :: node where
  "homeTree =
     Dir 0 [(''home'', Dir 0 [(''u'', Dir 0
              [(''d'', Dir 0 [(''a'', File (Bytes ''A'') 1)]),
               (''f'', File (Bytes ''hello'') 5)])]),
            (''t'', Dir 0 [])]"

text \<open>A trash that holds the one file \<^verbatim>\<open>/home/u/f\<close> and its sidecar.\<close>

definition trashedFile :: node where
  "trashedFile =
     Dir 0 [(''t'', Dir 0 [(''h'', Dir 0 [(''home'', Dir 0 [(''u'', Dir 0
       [(''f'', File (Bytes ''hello'') 5),
        (''f.saferm-meta'',
         File (MetaJSON \<lparr>OriginalPath = [''home'', ''u'', ''f''], DeletedAt = 100,
                 Hostname = ''h'', IsDirectory = False\<rparr>) 100)])])])])]"

text \<open>A trash whose one item has a sidecar that does not decode.\<close>

definition corruptTrash :: node where
  "corruptTrash =
     Dir 0 [(''t'', Dir 0 [(''h'', Dir 0
       [(''f'', File (Bytes ''hello'') 5),
        (''f.saferm-meta'', File (Bytes ''garbage'') 5)])])]"


text \<open>A host whose trash is on another device, so that a rename into it fails.\<close>

definition crossDeviceOs :: Os where
  "crossDeviceOs = \<lparr>hostName = Some ''h'', now = 100, layout = (\<lambda>t. ''stamp''),
     mounts = [[], [''t'']], maxDepth = 8\<rparr>"

definition recursiveOptions :: Options where
  "recursiveOptions = \<lparr>Force = False, Interactive = False, Recursive = True,
     RemoveEmptyDirs = False, Verbose = False\<rparr>"

text \<open>
  A trash that holds \<^verbatim>\<open>/home/u/f\<close> from an earlier removal, and a new file at
  \<^verbatim>\<open>/home/u/f\<close>.
\<close>

definition retrashTree :: node where
  "retrashTree =
     Dir 0 [(''home'', Dir 0 [(''u'', Dir 0 [(''f'', File (Bytes ''again'') 7)])]),
            (''t'', Dir 0 [(''h'', Dir 0 [(''home'', Dir 0 [(''u'', Dir 0
       [(''f'', File (Bytes ''hello'') 5),
        (''f.saferm-meta'',
         File (MetaJSON \<lparr>OriginalPath = [''home'', ''u'', ''f''], DeletedAt = 100,
                 Hostname = ''h'', IsDirectory = False\<rparr>) 100)])])])])]"



text \<open>A dangling symbolic link \<^verbatim>\<open>/home/u/l\<close> and an empty trash.\<close>

definition linkTree :: node where
  "linkTree =
     Dir 0 [(''home'', Dir 0 [(''u'', Dir 0 [(''l'', Link 3)])]), (''t'', Dir 0 [])]"

text \<open>
  The trash after the link has been removed, and a new file at \<^verbatim>\<open>/home/u/l\<close>, written
  at time 150.
\<close>

definition retrashLink :: node where
  "retrashLink =
     Dir 0 [(''home'', Dir 0 [(''u'', Dir 0 [(''l'', File (Bytes ''new'') 150)])]),
            (''t'', Dir 0 [(''h'', Dir 100 [(''home'', Dir 100 [(''u'', Dir 100
       [(''l'', Link 3),
        (''l.saferm-meta'',
         File (MetaJSON \<lparr>OriginalPath = [''home'', ''u'', ''l''], DeletedAt = 100,
                 Hostname = ''h'', IsDirectory = False\<rparr>) 100)])])])])]"

text \<open>
  A trash that holds \<^verbatim>\<open>/home/u/f\<close>, and a dangling symbolic link at \<^verbatim>\<open>/home/u/f\<close>.
\<close>

definition linkAtOrigin :: node where
  "linkAtOrigin =
     Dir 0 [(''home'', Dir 0 [(''u'', Dir 0 [(''f'', Link 9)])]),
            (''t'', Dir 0 [(''h'', Dir 0 [(''home'', Dir 0 [(''u'', Dir 0
       [(''f'', File (Bytes ''hello'') 5),
        (''f.saferm-meta'',
         File (MetaJSON \<lparr>OriginalPath = [''home'', ''u'', ''f''], DeletedAt = 100,
                 Hostname = ''h'', IsDirectory = False\<rparr>) 100)])])])])]"

section \<open>Paths, walks and the enumeration of the trash\<close>

lemma nodeAt_append:
  "nodeAt (p @ r) n = (case nodeAt p n of Inl e \<Rightarrow> Inl e | Inr m \<Rightarrow> nodeAt r m)"
proof (induction p arbitrary: n)
  case Nil
  show ?case by simp
next
  case (Cons x xs)
  show ?case
  proof (cases n)
    case (File c t)
    then show ?thesis by simp
  next
    case (Dir t kids)
    then show ?thesis using Cons.IH by (simp split: option.splits)
  next
    case (Link t)
    then show ?thesis by simp
  qed
qed

lemma present_iff: "present fs p \<longleftrightarrow> (\<exists>m. nodeAt p fs = Inr m)"
  by (simp add: present_def Lstat_def split: sum.splits)

lemma present_prefix: "present fs (p @ r) \<Longrightarrow> present fs p"
  by (auto simp: present_iff nodeAt_append split: sum.splits)

lemma in_sortedKids: "(x, k) \<in> set (sortedKids kids) \<longleftrightarrow> map_of kids x = Some k"
proof -
  have "set (sortedKids kids) = Map.graph (map_of kids)"
    by (simp add: sortedKids_def graph_map_of)
  then show ?thesis
    by (simp add: Map.graph_def)
qed










subsection \<open>Edits of the tree\<close>

lemma nodeAt_putNode_apart:
  "\<not> prefix p q \<Longrightarrow> \<not> prefix q p \<Longrightarrow> nodeAt q (putNode p n fs) = nodeAt q fs"
proof (induction p n fs arbitrary: q rule: putNode.induct)
  case (1 new n)
  then show ?case by simp
next
  case (2 x xs new c t)
  then show ?case by simp
next
  case (3 x xs new t kids)
  then show ?case
    by (cases q) (auto simp: update_conv' split: option.splits)
next
  case (4 x xs new t)
  then show ?case by simp
qed

lemma Lstat_putNode:
  "\<not> prefix p q \<Longrightarrow> Lstat (putNode p n fs) q = Lstat fs q"
proof (induction p n fs arbitrary: q rule: putNode.induct)
  case (1 new n)
  then show ?case by simp
next
  case (2 x xs new c t)
  then show ?case by simp
next
  case (3 x xs new t kids)
  show ?case
  proof (cases q)
    case Nil
    then show ?thesis by (simp add: Lstat_def split: option.splits)
  next
    case (Cons y ys)
    then show ?thesis
      using 3 by (auto simp: Lstat_def update_conv' split: option.splits)
  qed
next
  case (4 x xs new t)
  then show ?case by simp
qed

lemma infoOf_DirInfo: "infoOf n = DirInfo t \<longleftrightarrow> (\<exists>kids. n = Dir t kids)"
  by (cases n) auto

lemma Lstat_DirInfo: "Lstat fs p = Inr (DirInfo t) \<longleftrightarrow> (\<exists>kids. nodeAt p fs = Inr (Dir t kids))"
  by (auto simp: Lstat_def infoOf_DirInfo split: sum.splits)

lemma nodeAt_putNode_below:
  "p \<noteq> [] \<Longrightarrow> Lstat fs (butlast p) = Inr (DirInfo t) \<Longrightarrow>
     nodeAt (p @ r) (putNode p n fs) = nodeAt r n"
proof (induction p n fs arbitrary: t rule: putNode.induct)
  case (1 new n)
  then show ?case by simp
next
  case (2 x xs new c t')
  then show ?case by (cases xs) (auto simp: Lstat_def)
next
  case (3 x xs new t' kids)
  show ?case
  proof (cases "xs = []")
    case True
    then show ?thesis by (simp add: update_conv')
  next
    case False
    with 3 show ?thesis
      by (auto simp: Lstat_def update_conv' split: option.splits sum.splits)
  qed
next
  case (4 x xs new t')
  then show ?case by (cases xs) (auto simp: Lstat_def)
qed

lemma nodeAt_delNode_apart:
  "\<not> prefix p q \<Longrightarrow> \<not> prefix q p \<Longrightarrow> nodeAt q (delNode p fs) = nodeAt q fs"
proof (induction p fs arbitrary: q rule: delNode.induct)
  case (1 n)
  then show ?case by simp
next
  case (2 x xs c t)
  then show ?case by simp
next
  case (3 x xs t kids)
  then show ?case
    by (cases q) (auto simp: update_conv' delete_conv' split: option.splits)
next
  case (4 x xs t)
  then show ?case by simp
qed

lemma Lstat_delNode:
  "\<not> prefix p q \<Longrightarrow> Lstat (delNode p fs) q = Lstat fs q"
proof (induction p fs arbitrary: q rule: delNode.induct)
  case (1 n)
  then show ?case by simp
next
  case (2 x xs c t)
  then show ?case by simp
next
  case (3 x xs t kids)
  show ?case
  proof (cases q)
    case Nil
    then show ?thesis by (simp add: Lstat_def split: option.splits)
  next
    case (Cons y ys)
    then show ?thesis
      using 3 by (auto simp: Lstat_def update_conv' delete_conv' split: option.splits)
  qed
next
  case (4 x xs t)
  then show ?case by simp
qed

lemma absent_delNode:
  "p \<noteq> [] \<Longrightarrow> \<not> present (delNode p fs) (p @ r)"
proof (induction p fs rule: delNode.induct)
  case (1 n)
  then show ?case by simp
next
  case (2 x xs c t)
  then show ?case by (simp add: present_iff)
next
  case (3 x xs t kids)
  show ?case
  proof (cases "xs = []")
    case True
    then show ?thesis by (simp add: present_iff delete_conv')
  next
    case False
    with 3 show ?thesis
      by (auto simp: present_iff update_conv' split: option.splits)
  qed
next
  case (4 x xs t)
  then show ?case by (simp add: present_iff)
qed

lemma mkdirPath_apart:
  "mkdirPath t p fs = Inr fs' \<Longrightarrow> \<not> prefix q p \<Longrightarrow> nodeAt q fs' = nodeAt q fs"
proof (induction t p fs arbitrary: q fs' rule: mkdirPath.induct)
  case (1 now c t)
  then show ?case by simp
next
  case (2 now t kids)
  then show ?case by simp
next
  case (3 now x xs c t)
  then show ?case by simp
next
  case (4 now x xs t kids)
  from "4.prems" obtain y ys where q: "q = y # ys"
    by (cases q) auto
  from "4.prems" obtain k' where
    k': "mkdirPath now xs (case map_of kids x of None \<Rightarrow> Dir now [] | Some k \<Rightarrow> k) = Inr k'"
    and fs': "fs' = Dir t (AList.update x k' kids)"
    by (auto split: sum.splits)
  show ?case
  proof (cases "y = x")
    case False
    then show ?thesis by (simp add: q fs' update_conv')
  next
    case True
    with "4.prems" q have np: "\<not> prefix ys xs"
      by simp
    then have ne: "ys \<noteq> []"
      by auto
    have "nodeAt ys k' = nodeAt ys (case map_of kids x of None \<Rightarrow> Dir now [] | Some k \<Rightarrow> k)"
      using "4.IH" [OF k' np] .
    then show ?thesis
      using True ne by (cases ys) (auto simp: q fs' update_conv' split: option.splits)
  qed
next
  case (5 now p t)
  then show ?case by simp
qed

lemma mkdirPath_makes_dirs:
  "mkdirPath t p fs = Inr fs' \<Longrightarrow> prefix q p \<Longrightarrow> \<exists>t'. Lstat fs' q = Inr (DirInfo t')"
proof (induction t p fs arbitrary: q fs' rule: mkdirPath.induct)
  case (1 now c t)
  then show ?case by simp
next
  case (2 now t kids)
  then show ?case by (auto simp: Lstat_def)
next
  case (3 now x xs c t)
  then show ?case by simp
next
  case (4 now x xs t kids)
  from "4.prems" obtain k' where
    k': "mkdirPath now xs (case map_of kids x of None \<Rightarrow> Dir now [] | Some k \<Rightarrow> k) = Inr k'"
    and fs': "fs' = Dir t (AList.update x k' kids)"
    by (auto split: sum.splits)
  show ?case
  proof (cases q)
    case Nil
    then show ?thesis by (simp add: fs' Lstat_def)
  next
    case (Cons y ys)
    with "4.prems" have "y = x" and "prefix ys xs"
      by auto
    then show ?thesis
      using "4.IH" [OF k', of ys] by (simp add: Cons fs' Lstat_def update_conv')
  qed
next
  case (5 now p t)
  then show ?case by simp
qed

lemma mkdirPath_keeps_info:
  "mkdirPath t p fs = Inr fs' \<Longrightarrow> present fs q \<Longrightarrow> Lstat fs' q = Lstat fs q"
proof (induction t p fs arbitrary: q fs' rule: mkdirPath.induct)
  case (1 now c t)
  then show ?case by simp
next
  case (2 now t kids)
  then show ?case by simp
next
  case (3 now x xs c t)
  then show ?case by simp
next
  case (4 now x xs t kids)
  from "4.prems" obtain k' where
    k': "mkdirPath now xs (case map_of kids x of None \<Rightarrow> Dir now [] | Some k \<Rightarrow> k) = Inr k'"
    and fs': "fs' = Dir t (AList.update x k' kids)"
    by (auto split: sum.splits)
  show ?case
  proof (cases q)
    case Nil
    then show ?thesis by (simp add: fs' Lstat_def)
  next
    case (Cons y ys)
    show ?thesis
    proof (cases "y = x")
      case False
      then show ?thesis by (simp add: Cons fs' Lstat_def update_conv')
    next
      case True
      with "4.prems" Cons obtain k where k: "map_of kids x = Some k" and pk: "present k ys"
        by (auto simp: present_iff split: option.splits)
      have "Lstat k' ys = Lstat k ys"
        using "4.IH" [of k' ys] k' k pk by simp
      then show ?thesis
        using True k by (simp add: Cons fs' Lstat_def update_conv')
    qed
  qed
next
  case (5 now p t)
  then show ?case by simp
qed

subsection \<open>What the file operations change\<close>

lemma prefix_butlast: "prefix p (butlast q) \<Longrightarrow> prefix p q"
  by (metis prefix_order.trans prefixeq_butlast)

lemma Rename_Inr:
  assumes "Rename ms fs src dst = Inr fs'" and "src \<noteq> dst"
  shows "\<exists>n t. nodeAt src fs = Inr n \<and> Lstat fs (butlast dst) = Inr (DirInfo t)
          \<and> \<not> prefix src dst \<and> \<not> prefix dst src \<and> src \<noteq> [] \<and> dst \<noteq> []
          \<and> fs' = putNode dst n (delNode src fs)"
proof -
  from assms have ne: "src \<noteq> []" "dst \<noteq> []"
    by (auto simp: Rename_def split: if_splits)
  from assms ne obtain n where n: "nodeAt src fs = Inr n"
    by (auto simp: Rename_def split: sum.splits)
  from assms ne n obtain t kids where par: "nodeAt (butlast dst) fs = Inr (Dir t kids)"
    by (auto simp: Rename_def split: sum.splits node.splits)
  from assms ne n par have np: "\<not> prefix src dst" "\<not> prefix dst src"
    by (auto simp: Rename_def split: if_splits node.splits)
  from assms ne n par np have "fs' = putNode dst n (delNode src fs)"
    by (auto simp: Rename_def split: if_splits node.splits option.splits)
  with ne n par np show ?thesis
    by (auto simp: Lstat_DirInfo)
qed

lemma Rename_moved:
  assumes "Rename ms fs src dst = Inr fs'"
  shows "nodeAt (dst @ r) fs' = nodeAt (src @ r) fs"
proof (cases "src = dst")
  case True
  with assms have "fs' = fs"
    by (auto simp: Rename_def split: if_splits sum.splits node.splits)
  with True show ?thesis by simp
next
  case False
  from Rename_Inr [OF assms False] obtain n t where
    n: "nodeAt src fs = Inr n" and par: "Lstat fs (butlast dst) = Inr (DirInfo t)"
    and np: "\<not> prefix src dst" and ne: "dst \<noteq> []"
    and fs': "fs' = putNode dst n (delNode src fs)"
    by blast
  from np have "\<not> prefix src (butlast dst)"
    using prefix_butlast by blast
  then have "Lstat (delNode src fs) (butlast dst) = Inr (DirInfo t)"
    by (simp add: Lstat_delNode par)
  then have "nodeAt (dst @ r) fs' = nodeAt r n"
    unfolding fs' using ne by (rule nodeAt_putNode_below [rotated])
  then show ?thesis
    by (simp add: nodeAt_append n)
qed

lemma Rename_gone:
  assumes "Rename ms fs src dst = Inr fs'" and "src \<noteq> dst"
  shows "\<not> present fs' (src @ r)"
proof -
  from Rename_Inr [OF assms] obtain n where
    np: "\<not> prefix src dst" "\<not> prefix dst src" and ne: "src \<noteq> []"
    and fs': "fs' = putNode dst n (delNode src fs)"
    by blast
  have "\<not> prefix dst (src @ r)"
    using np prefix_same_cases [of dst "src @ r" src] by auto
  then have "Lstat fs' (src @ r) = Lstat (delNode src fs) (src @ r)"
    by (simp add: fs' Lstat_putNode)
  then show ?thesis
    using absent_delNode [OF ne, of fs r] by (simp add: present_def)
qed

lemma Rename_frame:
  assumes "Rename ms fs src dst = Inr fs'" and "\<not> prefix src q" and "\<not> prefix dst q"
  shows "Lstat fs' q = Lstat fs q"
proof (cases "src = dst")
  case True
  with assms show ?thesis
    by (auto simp: Rename_def split: if_splits sum.splits node.splits)
next
  case False
  from Rename_Inr [OF assms(1) False] obtain n where "fs' = putNode dst n (delNode src fs)"
    by blast
  with assms show ?thesis
    by (simp add: Lstat_putNode Lstat_delNode)
qed

lemma Rename_frame_node:
  assumes "Rename ms fs src dst = Inr fs'"
    and "\<not> prefix src q" and "\<not> prefix q src" and "\<not> prefix dst q" and "\<not> prefix q dst"
  shows "nodeAt q fs' = nodeAt q fs"
proof (cases "src = dst")
  case True
  with assms show ?thesis
    by (auto simp: Rename_def split: if_splits sum.splits node.splits)
next
  case False
  from Rename_Inr [OF assms(1) False] obtain n where "fs' = putNode dst n (delNode src fs)"
    by blast
  with assms show ?thesis
    by (simp add: nodeAt_putNode_apart nodeAt_delNode_apart)
qed

lemma Remove_Inr:
  assumes "Remove fs p = Inr fs'"
  shows "p \<noteq> [] \<and> fs' = delNode p fs"
  using assms by (auto simp: Remove_def split: if_splits sum.splits node.splits)

lemma Remove_file:
  assumes "nodeAt p fs = Inr (File c t)" and "p \<noteq> []"
  shows "Remove fs p = Inr (delNode p fs)"
  using assms by (simp add: Remove_def)

lemma RemoveAll_Inr:
  assumes "RemoveAll fs p = Inr fs'"
  shows "p \<noteq> [] \<and> fs' = delNode p fs"
  using assms by (auto simp: RemoveAll_def split: if_splits)

lemma WriteFile_Inr:
  assumes "WriteFile t fs p c = Inr fs'"
  shows "p \<noteq> [] \<and> (\<exists>t'. Lstat fs (butlast p) = Inr (DirInfo t'))
       \<and> (\<forall>t' kids. nodeAt p fs \<noteq> Inr (Dir t' kids)) \<and> fs' = putNode p (File c t) fs"
proof -
  from assms have ne: "p \<noteq> []"
    by (auto simp: WriteFile_def split: if_splits)
  from assms ne obtain t' kids where par: "nodeAt (butlast p) fs = Inr (Dir t' kids)"
    by (auto simp: WriteFile_def split: sum.splits node.splits)
  have "nodeAt p fs = nodeAt (butlast p @ [last p]) fs"
    using ne by simp
  also have "\<dots> = (case map_of kids (last p) of None \<Rightarrow> Inl ENOENT | Some k \<Rightarrow> Inr k)"
    by (simp only: nodeAt_append par) (simp split: option.splits)
  finally have at: "nodeAt p fs = (case map_of kids (last p) of None \<Rightarrow> Inl ENOENT | Some k \<Rightarrow> Inr k)" .
  from assms ne par have "\<forall>t' kids'. map_of kids (last p) \<noteq> Some (Dir t' kids')"
    and "fs' = putNode p (File c t) fs"
    by (auto simp: WriteFile_def split: option.splits node.splits)
  with ne par at show ?thesis
    by (auto simp: Lstat_DirInfo split: option.splits)
qed

section \<open>Classification of user patterns\<close>

text \<open>
  Claim C6. For a user pattern \<^verbatim>\<open>dir/**\<close> a path below \<^verbatim>\<open>dir\<close> is protected and a
  sibling of \<^verbatim>\<open>dir\<close> is not. The code compares strings: with the pattern
  \<^verbatim>\<open>/data/proj/**\<close> the sibling \<^verbatim>\<open>/data/project\<close>, which no earlier rule matches, is
  reported as protected, "under" \<^verbatim>\<open>/data/proj\<close>, whatever \<^verbatim>\<open>filepath.Match\<close> answers.
\<close>

theorem Check_protects_sibling_sharing_prefix:
  "Check \<lparr>workDir = ''/work'', homeDir = ''/home/u'', Glob = (\<lambda>p. Some []), Match = m\<rparr>
     (sampleConfig\<lparr>ProtectedPaths := [''/data/proj/**'']\<rparr>) ''/data/project'' False
   = (if m ''/data/proj/**'' ''/data/project'' = Some True
      then \<lparr>Protected = True, Reason = ''Path matches protected pattern: /data/proj/**''\<rparr>
      else \<lparr>Protected = True, Reason = ''Path is under protected directory: /data/proj''\<rparr>)"
  by (simp add: Check_def Clean_def IsAbs_def components_def isWildcardRoot_def backslash_def
      builtinProtectedPaths_def isGitPath_def Base_def Join_def expandPattern_def
      TrimSuffix_def Let_def suffix_to_prefix sampleConfig_def)

text \<open>
  Claim C9. A leading \<^verbatim>\<open>~\<close> of a user pattern stands for the caller's home directory.
  The code replaces it by \<^verbatim>\<open>filepath.Abs(filepath.Join("~"))\<close>, the element \<^verbatim>\<open>~\<close> below
  the working directory: with the working directory \<^verbatim>\<open>/work\<close> and the home directory
  \<^verbatim>\<open>/home/u\<close>, the pattern \<^verbatim>\<open>~/Documents/**\<close> is matched as \<^verbatim>\<open>/work/~/Documents/**\<close>, and
  \<^verbatim>\<open>/home/u/Documents/a.txt\<close> is protected only if \<^verbatim>\<open>filepath.Match\<close> accepts it for
  that pattern.
\<close>

theorem Check_expands_tilde_below_working_directory:
  "Check \<lparr>workDir = ''/work'', homeDir = ''/home/u'', Glob = (\<lambda>p. Some []), Match = m\<rparr>
     (sampleConfig\<lparr>ProtectedPaths := [''~/Documents/**'']\<rparr>) ''/home/u/Documents/a.txt'' False
   = (if m ''/work/~/Documents/**'' ''/home/u/Documents/a.txt'' = Some True
      then \<lparr>Protected = True,
            Reason = ''Path matches protected pattern: /work/~/Documents/**''\<rparr>
      else \<lparr>Protected = False, Reason = []\<rparr>)"
  by (simp add: Check_def Clean_def IsAbs_def components_def isWildcardRoot_def backslash_def
      builtinProtectedPaths_def isGitPath_def Base_def Join_def expandPattern_def
      TrimSuffix_def Let_def suffix_to_prefix Abs_def sampleConfig_def)

section \<open>Reading a response\<close>

text \<open>The response holds one word: no white space, so never the confirmation line.\<close>

lemma skipSpace_rest:
  "skipSpace s = (True, c # cs) \<Longrightarrow> \<not> isSpace c"
  by (induction s) (auto split: if_splits)

lemma Scanln_no_space: "c \<in> set (fst (Scanln s)) \<Longrightarrow> \<not> isSpace c"
  by (auto simp: Scanln_def split: prod.splits bool.splits if_splits dest: set_takeWhileD)

lemma Scanln_one_word: "fst (Scanln s) \<noteq> ''yes I am sure''"
proof
  assume "fst (Scanln s) = ''yes I am sure''"
  then have "CHR 0x20 \<in> set (fst (Scanln s))"
    by simp
  then have "\<not> isSpace (CHR 0x20)"
    by (rule Scanln_no_space)
  then show False
    by (simp add: isSpace_def)
qed

section \<open>The force flag and protected paths\<close>

lemma protectionGate_force:
  assumes "Protected status" and "Force opts" and "ProtectedBehavior cfg = ''confirm''"
  shows "protectionGate cfg opts absPath status stdin
           = (stdin, Some (BlockedDespiteForce absPath (Reason status)))"
  using assms by (simp add: protectionGate_def)

text \<open>
  Claim C10. When the path exists and passes the directory check, so that it is
  classified, and classification marks it protected while \<^verbatim>\<open>-f\<close> is set under the
  behaviour \<^verbatim>\<open>confirm\<close>, \<^verbatim>\<open>processPath\<close> returns the error that names the block, reads
  nothing from standard input and leaves the file system as it was. More generally,
  such a call returns an error whenever the path exists.
\<close>

theorem processPath_force_never_bypasses_protection:
  assumes "Force opts"
    and "ProtectedBehavior cfg = ''confirm''"
    and "Protected (Check h cfg (Abs (workDir h) p) (Recursive opts))"
    and "Lstat fs (components (Abs (workDir h) p)) = Inr i"
  shows "(\<exists>e. processPath h os cfg opts fs stdin p = (fs, stdin, Some e))
       \<and> (directoryGate opts fs (components (Abs (workDir h) p)) i = None \<longrightarrow>
            processPath h os cfg opts fs stdin p
              = (fs, stdin,
                 Some (BlockedDespiteForce (Abs (workDir h) p)
                   (Reason (Check h cfg (Abs (workDir h) p) (Recursive opts))))))"
proof (cases "directoryGate opts fs (components (Abs (workDir h) p)) i")
  case None
  then show ?thesis
    using assms by (simp add: processPath_def Let_def protectionGate_force)
next
  case (Some e)
  then show ?thesis
    using assms by (simp add: processPath_def Let_def)
qed

theorem processPath_force_never_bypasses_protection_witness:
  "Force forceOptions
   \<and> ProtectedBehavior sampleConfig = ''confirm''
   \<and> Protected (Check sampleHost sampleConfig (Abs (workDir sampleHost) ''/home'') (Recursive forceOptions))
   \<and> Lstat homeTree (components (Abs (workDir sampleHost) ''/home'')) = Inr (DirInfo 0)
   \<and> processPath sampleHost sampleOs sampleConfig forceOptions homeTree
         ''yes I am sure\<newline>'' ''/home''
       = (homeTree, ''yes I am sure\<newline>'',
          Some (BlockedDespiteForce ''/home'' ''System directory is protected: /home''))"
proof -
  have f: "Force forceOptions"
    by (simp add: forceOptions_def)
  have b: "ProtectedBehavior sampleConfig = ''confirm''"
    by (simp add: sampleConfig_def)
  have a: "Abs (workDir sampleHost) ''/home'' = ''/home''"
    by code_simp
  have c: "Check sampleHost sampleConfig ''/home'' (Recursive forceOptions)
             = \<lparr>Protected = True, Reason = ''System directory is protected: /home''\<rparr>"
    by code_simp
  have l: "Lstat homeTree (components ''/home'') = Inr (DirInfo 0)"
    by code_simp
  have g: "directoryGate forceOptions homeTree (components ''/home'') (DirInfo 0) = None"
    by code_simp
  show ?thesis
    using processPath_force_never_bypasses_protection
      [of forceOptions sampleConfig sampleHost "''/home''" homeTree "DirInfo 0" sampleOs
          "''yes I am sure\<newline>''"]
      f b a c l g
    by simp
qed

section \<open>The operations on the sample states\<close>




text \<open>
  Claim C3. Moving the directory \<^verbatim>\<open>/home/u/d\<close>, which holds one file, to the trash
  succeeds and keeps the file below the trashed directory; the enumeration of the
  trash is then empty, and restoring the directory by its recorded original path
  fails: no item is found.
\<close>

theorem Restore_of_trashed_directory_finds_no_item:
  "snd (Move sampleOs sampleConfig homeTree [''home'', ''u'', ''d''])
     = Inr [''t'', ''h'', ''home'', ''u'', ''d'']
   \<and> ReadFile (fst (Move sampleOs sampleConfig homeTree [''home'', ''u'', ''d'']))
       [''t'', ''h'', ''home'', ''u'', ''d'', ''a''] = Inr (Bytes ''A'')
   \<and> findTrashItems (fst (Move sampleOs sampleConfig homeTree [''home'', ''u'', ''d''])) [''t''] = []
   \<and> Restore sampleOs sampleConfig
       (fst (Move sampleOs sampleConfig homeTree [''home'', ''u'', ''d''])) [''home'', ''u'', ''d'']
     = (fst (Move sampleOs sampleConfig homeTree [''home'', ''u'', ''d'']),
        Some (NoItemFound [''home'', ''u'', ''d'']))"
  by code_simp

text \<open>
  Claim C4. An item whose sidecar does not decode is judged by its modification
  time. Forty days after that time a purge with thirty days of retention removes
  the item and counts it, and leaves its sidecar in the trash.
\<close>

theorem Purge_leaves_undecodable_sidecar:
  "Purge (sampleOs\<lparr>now := 40 * 86400\<rparr>) sampleConfig corruptTrash 30
     = (Dir 0 [(''t'', Dir 0 [(''h'', Dir 0
          [(''f.saferm-meta'', File (Bytes ''garbage'') 5)])])], 1)"
  by code_simp

text \<open>
  Claim C5. \<^verbatim>\<open>Empty\<close> asks for the line \<^verbatim>\<open>yes I am sure\<close> and compares \<^verbatim>\<open>response\<close> with
  it, but \<^verbatim>\<open>fmt.Scanln(&response)\<close> stores the first word only. Typing the line at
  the prompt leaves \<^verbatim>\<open>yes\<close> in \<^verbatim>\<open>response\<close>: \<^verbatim>\<open>Empty\<close> aborts, the item and its sidecar
  stay in the trash, and whatever the input is the trash stays as it was. No run of
  \<^verbatim>\<open>Empty\<close> deletes an item or reaches \<^verbatim>\<open>cleanEmptyDirs\<close>.
\<close>

theorem Empty_aborts_on_the_confirmation_line:
  "Scanln ''yes I am sure\<newline>'' = (''yes'', '' am sure\<newline>'')
   \<and> Empty sampleConfig trashedFile ''yes I am sure\<newline>''
       = (trashedFile, '' am sure\<newline>'', 0)
   \<and> findTrashItems trashedFile [''t''] = [[''t'', ''h'', ''home'', ''u'', ''f'']]
   \<and> (\<forall>stdin. fst (Empty sampleConfig trashedFile stdin) = trashedFile)"
proof -
  have a: "Scanln ''yes I am sure\<newline>'' = (''yes'', '' am sure\<newline>'')"
    by code_simp
  have b: "Empty sampleConfig trashedFile ''yes I am sure\<newline>''
             = (trashedFile, '' am sure\<newline>'', 0)"
    by code_simp
  have c: "findTrashItems trashedFile [''t''] = [[''t'', ''h'', ''home'', ''u'', ''f'']]"
    by code_simp
  have d: "fst (Empty sampleConfig trashedFile stdin) = trashedFile" for stdin
    using Scanln_one_word [of stdin]
    by (auto simp: Empty_def split: prod.splits)
  from a b c d show ?thesis
    by blast
qed

text \<open>
  Claim C7. \<^verbatim>\<open>Move\<close> takes the item with \<^verbatim>\<open>os.Lstat\<close>, so a symbolic link is moved to
  the trash as the entry it is, but it looks for an earlier entry at the destination
  with \<^verbatim>\<open>os.Stat\<close>, which follows a link. Removing the dangling link \<^verbatim>\<open>/home/u/l\<close> puts
  it at \<^verbatim>\<open>/t/h/home/u/l\<close>. When a new file \<^verbatim>\<open>/home/u/l\<close> is removed a hundred seconds
  later, the destination exists but \<^verbatim>\<open>os.Stat\<close> fails on it: the location returned is
  the destination without a time stamp, and the rename replaces the entry trashed
  before, whose sidecar is overwritten. With a regular file at the destination the
  same call appends the time stamp.
\<close>

theorem Move_replaces_trashed_dangling_link:
  "snd (Move sampleOs sampleConfig linkTree [''home'', ''u'', ''l''])
     = Inr [''t'', ''h'', ''home'', ''u'', ''l'']
   \<and> WriteFile 150 (fst (Move sampleOs sampleConfig linkTree [''home'', ''u'', ''l'']))
         [''home'', ''u'', ''l''] (Bytes ''new'') = Inr retrashLink
   \<and> Lstat retrashLink (trashTarget sampleOs sampleConfig [''home'', ''u'', ''l''])
       = Inr (LinkInfo 3)
   \<and> Move (sampleOs\<lparr>now := 200\<rparr>) sampleConfig retrashLink [''home'', ''u'', ''l'']
       = (Dir 0 [(''home'', Dir 0 [(''u'', Dir 0 [])]),
                 (''t'', Dir 0 [(''h'', Dir 100 [(''home'', Dir 100 [(''u'', Dir 100
            [(''l'', File (Bytes ''new'') 150),
             (''l.saferm-meta'',
              File (MetaJSON \<lparr>OriginalPath = [''home'', ''u'', ''l''], DeletedAt = 200,
                      Hostname = ''h'', IsDirectory = False\<rparr>) 200)])])])])],
          Inr [''t'', ''h'', ''home'', ''u'', ''l''])
   \<and> snd (Move (sampleOs\<lparr>now := 200\<rparr>) sampleConfig retrashTree [''home'', ''u'', ''f''])
       = Inr [''t'', ''h'', ''home'', ''u'', ''f.stamp'']"
  by code_simp

text \<open>
  Claim C8. \<^verbatim>\<open>Restore\<close> looks for an occupant of the original path with \<^verbatim>\<open>os.Stat\<close>.
  With a dangling symbolic link at \<^verbatim>\<open>/home/u/f\<close> the entry is there for \<^verbatim>\<open>os.Lstat\<close>
  and missing for \<^verbatim>\<open>os.Stat\<close>: \<^verbatim>\<open>Restore\<close> returns no error and the rename replaces the
  link by the restored file. With a regular file at the original path and the same
  trash, \<^verbatim>\<open>Restore\<close> returns the error and changes nothing.
\<close>

theorem Restore_replaces_dangling_link_at_original_path:
  "Lstat linkAtOrigin [''home'', ''u'', ''f''] = Inr (LinkInfo 9)
   \<and> Stat linkAtOrigin [''home'', ''u'', ''f''] = Inl ENOENT
   \<and> Restore sampleOs sampleConfig linkAtOrigin [''home'', ''u'', ''f'']
       = (Dir 0 [(''home'', Dir 0 [(''u'', Dir 0 [(''f'', File (Bytes ''hello'') 5)])]),
                 (''t'', Dir 0 [(''h'', Dir 0 [(''home'', Dir 0 [(''u'', Dir 0 [])])])])],
          None)
   \<and> Restore sampleOs sampleConfig retrashTree [''home'', ''u'', ''f'']
       = (retrashTree, Some (DestinationExists [''home'', ''u'', ''f'']))"
  by code_simp

section \<open>Paths with an extension\<close>

lemma prefix_proper_butlast: "prefix p q \<Longrightarrow> p \<noteq> q \<Longrightarrow> prefix p (butlast q)"
  by (auto simp: prefix_def butlast_append)

lemma same_length_not_prefix: "length p = length q \<Longrightarrow> p \<noteq> q \<Longrightarrow> \<not> prefix p q"
  by (auto simp: prefix_def)

lemma length_addExt: "p \<noteq> [] \<Longrightarrow> length (addExt p e) = length p"
  by (simp add: addExt_def)

lemma addExt_neq: "p \<noteq> [] \<Longrightarrow> e \<noteq> [] \<Longrightarrow> addExt p e \<noteq> p"
proof
  assume "p \<noteq> []" and "e \<noteq> []" and "addExt p e = p"
  then have "last (butlast p @ [last p @ e]) = last p"
    by (simp add: addExt_def)
  with \<open>e \<noteq> []\<close> show False by simp
qed

lemma addExt_apart:
  assumes "p \<noteq> []" and "e \<noteq> []"
  shows "\<not> prefix (addExt p e) (p @ r)" and "\<not> prefix (p @ r) (addExt p e)"
proof -
  have a: "\<not> prefix (addExt p e) p" and b: "\<not> prefix p (addExt p e)"
    using assms same_length_not_prefix [of "addExt p e" p] same_length_not_prefix [of p "addExt p e"]
    by (simp_all add: length_addExt addExt_neq [symmetric] addExt_neq)
  show "\<not> prefix (addExt p e) (p @ r)"
    using a b prefix_same_cases [of "addExt p e" "p @ r" p] by auto
  show "\<not> prefix (p @ r) (addExt p e)"
    using b by (meson prefix_order.trans prefixI)
qed

lemma metaSuffix_nonempty: "metaSuffix \<noteq> []"
  by (simp add: metaSuffix_def)

section \<open>Copy and delete keeps every file\<close>

lemma fileAt_Lstat:
  "fileAt fs p = (case Lstat fs p of Inr (FileInfo c t) \<Rightarrow> Some c | _ \<Rightarrow> None)"
  by (simp add: fileAt_def Lstat_def split: sum.splits node.splits)

lemma fileAt_cong: "Lstat fs' q = Lstat fs q \<Longrightarrow> fileAt fs' q = fileAt fs q"
  by (simp add: fileAt_Lstat)

lemma fileAt_Some: "fileAt fs p = Some c \<longleftrightarrow> (\<exists>t. nodeAt p fs = Inr (File c t))"
  by (auto simp: fileAt_def split: sum.splits node.splits)

lemma fileAt_ReadFile: "ReadFile fs p = Inr c \<longleftrightarrow> fileAt fs p = Some c"
  by (auto simp: fileAt_def ReadFile_def split: sum.splits node.splits)

lemma fileAt_below_file: "fileAt fs p = Some c \<Longrightarrow> fileAt fs (p @ rel) = Some c' \<Longrightarrow> rel = []"
  by (cases rel) (auto simp: fileAt_Some nodeAt_append)

lemma apart_ext:
  assumes "\<not> prefix s d" and "\<not> prefix d s"
  shows "\<not> prefix (s @ a) (d @ b)"
proof
  assume "prefix (s @ a) (d @ b)"
  then have "prefix s (d @ b)"
    by (meson prefix_order.trans prefixI)
  with assms show False
    using prefix_same_cases [of s "d @ b" d] by auto
qed

lemma relocates_unchanged: "relocates src dst fs fs (Some e)"
  by (simp add: relocates_def)

lemma copyFileAndDelete_relocates:
  assumes sd: "\<not> prefix s d" and ds: "\<not> prefix d s"
    and run: "copyFileAndDelete t fs s d = (fs', r)"
  shows "relocates s d fs fs' r"
proof (cases "ReadFile fs s")
  case (Inl e)
  with run show ?thesis
    by (auto simp: copyFileAndDelete_def relocates_unchanged)
next
  case (Inr data)
  then have src: "fileAt fs s = Some data"
    by (simp add: fileAt_ReadFile)
  then obtain ts where sfile: "nodeAt s fs = Inr (File data ts)"
    by (auto simp: fileAt_Some)
  then have li: "Lstat fs s = Inr (FileInfo data ts)"
    by (simp add: Lstat_def)
  from sfile have st: "Stat fs s = Inr (FileInfo data ts)"
    by (simp add: Stat_def)
  show ?thesis
  proof (cases "WriteFile t fs d data")
    case (Inl e)
    with run Inr li st show ?thesis
      by (auto simp: copyFileAndDelete_def relocates_unchanged)
  next
    case wr: (Inr fs1)
    from WriteFile_Inr [OF wr] obtain t' where dne: "d \<noteq> []"
      and par: "Lstat fs (butlast d) = Inr (DirInfo t')"
      and fs1: "fs1 = putNode d (File data t) fs"
      by blast
    have frame1: "Lstat fs1 q = Lstat fs q" if "\<not> prefix d q" for q
      using that by (simp add: fs1 Lstat_putNode)
    have dst1: "fileAt fs1 d = Some data"
      using nodeAt_putNode_below [OF dne par, of "[]" "File data t"]
      by (simp add: fs1 fileAt_Some)
    have s1: "nodeAt s fs1 = Inr (File data ts)"
      using frame1 [OF ds] li by (auto simp: Lstat_def split: sum.splits elim: infoOf.elims)
    have only: "rel = [] \<and> c = data" if "fileAt fs (s @ rel) = Some c" for rel c
      using that src fileAt_below_file [OF src that] by auto
    show ?thesis
    proof (cases "s = []")
      case True
      with run Inr li st wr have res: "fs' = fs1" "r = Some EINVAL"
        by (auto simp: copyFileAndDelete_def Remove_def)
      have "fileAt fs1 s = Some data"
        using s1 by (simp add: fileAt_Some)
      then have "fileAt fs1 (s @ rel) = Some c" if "fileAt fs (s @ rel) = Some c" for rel c
        using only [OF that] by simp
      then show ?thesis
        using frame1 by (simp add: relocates_def res outside_def)
    next
      case False
      from run Inr li st wr Remove_file [OF s1 False] have res: "fs' = delNode s fs1" "r = None"
        by (auto simp: copyFileAndDelete_def)
      have "Lstat fs' q = Lstat fs q" if "outside s d q" for q
        using that by (simp add: res Lstat_delNode frame1 outside_def)
      moreover have dst': "fileAt fs' d = Some data"
        using dst1 sd by (simp add: res fileAt_Lstat Lstat_delNode)
      moreover have "fileAt fs' (d @ rel) = Some c" if "fileAt fs (s @ rel) = Some c" for rel c
        using only [OF that] dst' by simp
      ultimately show ?thesis
        by (simp add: relocates_def)
    qed
  qed
qed

lemma distinct_map_insort_key:
  "distinct (map f (insort_key f x xs)) \<longleftrightarrow> f x \<notin> f ` set xs \<and> distinct (map f xs)"
  by (induction xs) (auto simp: set_insort_key)

lemma distinct_map_sort_key: "distinct (map f (sort_key f xs)) \<longleftrightarrow> distinct (map f xs)"
  by (induction xs) (simp_all add: distinct_map_insort_key)

lemma ReadDir_Inr:
  assumes "ReadDir fs p = Inr entries"
  shows "distinct (map fst entries)"
    and "fst ` set entries = {x. present fs (p @ [x])}"
    and "\<exists>t. Lstat fs p = Inr (DirInfo t)"
proof -
  from assms obtain t kids where dir: "nodeAt p fs = Inr (Dir t kids)"
    and entries: "entries = map (\<lambda>(x, k). (x, infoOf k)) (sortedKids kids)"
    by (auto simp: ReadDir_def split: sum.splits node.splits)
  have fst: "map fst entries = map fst (sortedKids kids)"
    by (simp add: entries case_prod_beta)
  show "distinct (map fst entries)"
    by (simp add: fst sortedKids_def distinct_map_sort_key)
  have "fst ` set entries = fst ` set (sortedKids kids)"
    using fst by (metis set_map)
  also have "\<dots> = {x. \<exists>k. (x, k) \<in> set (sortedKids kids)}"
    by force
  also have "\<dots> = {x. \<exists>k. map_of kids x = Some k}"
    by (simp add: in_sortedKids)
  also have "\<dots> = {x. present fs (p @ [x])}"
    by (auto simp: present_iff nodeAt_append dir split: option.splits)
  finally show "fst ` set entries = {x. present fs (p @ [x])}" .
  show "\<exists>t. Lstat fs p = Inr (DirInfo t)"
    using dir by (simp add: Lstat_def)
qed

lemma outside_child: "outside src dst q \<Longrightarrow> outside (src @ [x]) (dst @ [x]) q"
proof -
  assume o: "outside src dst q"
  then have "\<not> prefix (src @ [x]) q" and "\<not> prefix (dst @ [x]) q"
    by (auto simp: outside_def dest: append_prefixD)
  moreover have "\<not> prefix q (dst @ [x])"
    using o by (auto simp: outside_def prefix_snoc)
  ultimately show ?thesis
    by (simp add: outside_def)
qed

lemma outside_sibling_src:
  "\<not> prefix src dst \<Longrightarrow> \<not> prefix dst src \<Longrightarrow> x \<noteq> y \<Longrightarrow>
     outside (src @ [x]) (dst @ [x]) (src @ y # rel)"
  using apart_ext [of dst src "[x]" "y # rel"] apart_ext [of src dst "y # rel" "[x]"]
  by (simp add: outside_def)

lemma outside_sibling_dst:
  "\<not> prefix src dst \<Longrightarrow> \<not> prefix dst src \<Longrightarrow> x \<noteq> y \<Longrightarrow>
     outside (src @ [y]) (dst @ [y]) (dst @ x # rel)"
  using apart_ext [of src dst "[y]" "x # rel"]
  by (simp add: outside_def)

lemma copyEntries_relocates:
  assumes sd: "\<not> prefix src dst" and ds: "\<not> prefix dst src"
    and step: "\<And>x g g' r'. copyDirAndDelete d t g (src @ [x]) (dst @ [x]) = (g', r') \<Longrightarrow>
                 relocates (src @ [x]) (dst @ [x]) g g' r'"
    and "distinct (map fst entries)"
    and "copyEntries d t fs src dst entries = (fs', r)"
  shows "relocatesEntries src dst (fst ` set entries) fs fs' r"
  using assms(4,5)
proof (induction entries arbitrary: fs)
  case Nil
  then show ?case
    by (simp add: relocatesEntries_def)
next
  case (Cons e rest)
  obtain x i where e: "e = (x, i)"
    by (cases e)
  obtain g1 r1 where first:
    "(if IsDir i then copyDirAndDelete d t fs (src @ [x]) (dst @ [x])
      else copyFileAndDelete t fs (src @ [x]) (dst @ [x])) = (g1, r1)"
    by (cases "if IsDir i then copyDirAndDelete d t fs (src @ [x]) (dst @ [x])
      else copyFileAndDelete t fs (src @ [x]) (dst @ [x])")
  have apart: "\<not> prefix (src @ [x]) (dst @ [x])" "\<not> prefix (dst @ [x]) (src @ [x])"
    using apart_ext [OF sd ds] apart_ext [OF ds sd] by blast+
  have rel1: "relocates (src @ [x]) (dst @ [x]) fs g1 r1"
    using first step copyFileAndDelete_relocates [OF apart] by (auto split: if_splits)
  from Cons.prems have dist: "distinct (map fst rest)" and fresh: "x \<notin> fst ` set rest"
    by (auto simp: e)
  have frame1: "Lstat g1 q = Lstat fs q" if "outside (src @ [x]) (dst @ [x]) q" for q
    using rel1 that by (simp add: relocates_def)
  have other1: "fileAt g1 (src @ y # rel) = fileAt fs (src @ y # rel)" if "y \<noteq> x" for y rel
    using frame1 [OF outside_sibling_src [OF sd ds that [symmetric]]] by (rule fileAt_cong)
  show ?case
  proof (cases r1)
    case (Some err)
    with Cons.prems first have res: "fs' = g1" "r = Some err"
      by (auto simp: e)
    have "fileAt g1 (src @ y # rel) = Some c \<or> fileAt g1 (dst @ y # rel) = Some c"
      if "y \<in> insert x (fst ` set rest)" and "fileAt fs (src @ y # rel) = Some c" for y rel c
    proof (cases "y = x")
      case True
      with rel1 that(2) show ?thesis
        by (simp add: relocates_def)
    next
      case False
      with other1 that(2) show ?thesis by simp
    qed
    then show ?thesis
      using frame1 by (simp add: relocatesEntries_def res e del: insert_iff)
  next
    case None
    with Cons.prems first have "copyEntries d t g1 src dst rest = (fs', r)"
      by (simp add: e)
    from Cons.IH [OF dist this] have IH: "relocatesEntries src dst (fst ` set rest) g1 fs' r" .
    have frame2: "Lstat fs' q = Lstat g1 q" if "\<forall>y\<in>fst ` set rest. outside (src @ [y]) (dst @ [y]) q" for q
      using IH that unfolding relocatesEntries_def by blast
    have IH_b: "fileAt fs' (src @ y # rel) = Some c \<or> fileAt fs' (dst @ y # rel) = Some c"
      if "y \<in> fst ` set rest" and "fileAt g1 (src @ y # rel) = Some c" for y rel c
      using IH that unfolding relocatesEntries_def by blast
    have IH_c: "fileAt fs' (dst @ y # rel) = Some c"
      if "r = None" and "y \<in> fst ` set rest" and "fileAt g1 (src @ y # rel) = Some c" for y rel c
      using IH that unfolding relocatesEntries_def by blast
    have done_x: "fileAt fs' (dst @ x # rel) = Some c" if "fileAt fs (src @ x # rel) = Some c" for rel c
    proof -
      have "fileAt g1 ((dst @ [x]) @ rel) = Some c"
        using rel1 None that by (simp add: relocates_def)
      then have "fileAt g1 (dst @ x # rel) = Some c"
        by simp
      moreover have "Lstat fs' (dst @ x # rel) = Lstat g1 (dst @ x # rel)"
      proof (rule frame2, rule ballI)
        fix y assume "y \<in> fst ` set rest"
        with fresh have "x \<noteq> y" by auto
        then show "outside (src @ [y]) (dst @ [y]) (dst @ x # rel)"
          by (rule outside_sibling_dst [OF sd ds])
      qed
      ultimately show ?thesis
        using fileAt_cong [of fs' "dst @ x # rel" g1] by simp
    qed
    have a: "Lstat fs' q = Lstat fs q"
      if "\<forall>y\<in>insert x (fst ` set rest). outside (src @ [y]) (dst @ [y]) q" for q
    proof -
      from that have "outside (src @ [x]) (dst @ [x]) q"
        and "\<forall>y\<in>fst ` set rest. outside (src @ [y]) (dst @ [y]) q"
        by simp_all
      then show ?thesis
        using frame1 [of q] frame2 [of q] by simp
    qed
    have b: "fileAt fs' (src @ y # rel) = Some c \<or> fileAt fs' (dst @ y # rel) = Some c"
      if "y \<in> insert x (fst ` set rest)" and "fileAt fs (src @ y # rel) = Some c" for y rel c
    proof (cases "y = x")
      case True
      with done_x that(2) show ?thesis by simp
    next
      case False
      with that have "y \<in> fst ` set rest" and "fileAt g1 (src @ y # rel) = Some c"
        using other1 by auto
      then show ?thesis
        by (rule IH_b)
    qed
    have c: "fileAt fs' (dst @ y # rel) = Some c"
      if "r = None" and "y \<in> insert x (fst ` set rest)" and "fileAt fs (src @ y # rel) = Some c" for y rel c
    proof (cases "y = x")
      case True
      with done_x that(3) show ?thesis by simp
    next
      case False
      with that have "y \<in> fst ` set rest" and "fileAt g1 (src @ y # rel) = Some c"
        using other1 by auto
      with that(1) show ?thesis
        by (rule IH_c)
    qed
    have names: "fst ` set (e # rest) = insert x (fst ` set rest)"
      by (simp add: e)
    show ?thesis
      unfolding relocatesEntries_def names
    proof (intro conjI allI impI ballI)
      fix q assume "\<forall>y\<in>insert x (fst ` set rest). outside (src @ [y]) (dst @ [y]) q"
      then show "Lstat fs' q = Lstat fs q" by (rule a)
    next
      fix y rel c
      assume "y \<in> insert x (fst ` set rest)" and "fileAt fs (src @ y # rel) = Some c"
      then show "fileAt fs' (src @ y # rel) = Some c \<or> fileAt fs' (dst @ y # rel) = Some c"
        by (rule b)
    next
      fix y rel c
      assume "r = None" and "y \<in> insert x (fst ` set rest)"
        and "fileAt fs (src @ y # rel) = Some c"
      then show "fileAt fs' (dst @ y # rel) = Some c"
        by (rule c)
    qed
  qed
qed

lemma copyDirAndDelete_relocates:
  "\<not> prefix src dst \<Longrightarrow> \<not> prefix dst src \<Longrightarrow>
     copyDirAndDelete d t fs src dst = (fs', r) \<Longrightarrow> relocates src dst fs fs' r"
proof (induction d arbitrary: fs src dst fs' r)
  case 0
  then show ?case
    by (auto simp: relocates_unchanged)
next
  case (Suc d)
  note sd = Suc.prems(1) and ds = Suc.prems(2) and run = Suc.prems(3)
  show ?case
  proof (cases "Stat fs src")
    case (Inl e)
    with run show ?thesis
      by (auto simp: relocates_unchanged)
  next
    case li: (Inr srcInfo)
    show ?thesis
    proof (cases "mkdirPath t dst fs")
      case (Inl e)
      with run li show ?thesis
        by (auto simp: MkdirAll_def relocates_unchanged)
    next
      case mk: (Inr fs1)
      have frame_mk: "Lstat fs1 q = Lstat fs q" if "\<not> prefix q dst" for q
        using mkdirPath_apart [OF mk that] by (simp add: Lstat_def)
      have src_mk: "fileAt fs1 (src @ rel) = fileAt fs (src @ rel)" for rel
        using frame_mk [of "src @ rel"] apart_ext [OF sd ds, of rel "[]"]
          fileAt_cong [of fs1 "src @ rel" fs] by simp
      show ?thesis
      proof (cases "ReadDir fs1 src")
        case (Inl e)
        with run li mk have res: "fs' = fs1" "r = Some e"
          by (auto simp: MkdirAll_def)
        show ?thesis
          using frame_mk src_mk by (simp add: relocates_def res outside_def)
      next
        case rd: (Inr entries)
        obtain fs2 r2 where loop: "copyEntries d t fs1 src dst entries = (fs2, r2)"
          by (cases "copyEntries d t fs1 src dst entries")
        have step: "relocates (src @ [x]) (dst @ [x]) g g' r'"
          if "copyDirAndDelete d t g (src @ [x]) (dst @ [x]) = (g', r')" for x g g' r'
          using Suc.IH [OF _ _ that] apart_ext [OF sd ds] apart_ext [OF ds sd] by blast
        from copyEntries_relocates [OF sd ds step ReadDir_Inr(1) [OF rd] loop]
        have ent: "relocatesEntries src dst (fst ` set entries) fs1 fs2 r2" .
        have names: "fst ` set entries = {x. present fs1 (src @ [x])}"
          by (rule ReadDir_Inr(2) [OF rd])
        from ReadDir_Inr(3) [OF rd] obtain td where srcdir: "Lstat fs1 src = Inr (DirInfo td)"
          by blast
        txt \<open>Every file below the source is below one of the entries read.\<close>
        have below: "\<exists>x rel'. rel = x # rel' \<and> x \<in> fst ` set entries"
          if "fileAt fs1 (src @ rel) = Some c" for rel c
        proof (cases rel)
          case Nil
          with that srcdir show ?thesis
            by (simp add: fileAt_Lstat)
        next
          case (Cons x rel')
          from that have "present fs1 ((src @ [x]) @ rel')"
            by (auto simp: Cons fileAt_Some present_iff)
          then have "present fs1 (src @ [x])"
            by (rule present_prefix)
          then show ?thesis
            by (simp add: Cons names)
        qed
        have frame2: "Lstat fs2 q = Lstat fs q" if "outside src dst q" for q
        proof -
          have "\<forall>x\<in>fst ` set entries. outside (src @ [x]) (dst @ [x]) q"
            using that outside_child by blast
          then have "Lstat fs2 q = Lstat fs1 q"
            using ent unfolding relocatesEntries_def by blast
          then show ?thesis
            using frame_mk [of q] that by (simp add: outside_def)
        qed
        have keep2: "fileAt fs2 (src @ rel) = Some c \<or> fileAt fs2 (dst @ rel) = Some c"
          if "fileAt fs (src @ rel) = Some c" for rel c
        proof -
          from that have f1: "fileAt fs1 (src @ rel) = Some c"
            by (simp add: src_mk)
          from below [OF f1] obtain x rel' where "rel = x # rel'" and "x \<in> fst ` set entries"
            by blast
          with f1 ent show ?thesis
            unfolding relocatesEntries_def by blast
        qed
        have all2: "fileAt fs2 (dst @ rel) = Some c"
          if "r2 = None" and "fileAt fs (src @ rel) = Some c" for rel c
        proof -
          from that have f1: "fileAt fs1 (src @ rel) = Some c"
            by (simp add: src_mk)
          from below [OF f1] obtain x rel' where "rel = x # rel'" and "x \<in> fst ` set entries"
            by blast
          with f1 ent that(1) show ?thesis
            unfolding relocatesEntries_def by blast
        qed
        show ?thesis
        proof (cases "r2 = None \<and> src \<noteq> []")
          case False
          with run li mk rd loop obtain e where res: "fs' = fs2" "r = Some e"
            by (auto simp: MkdirAll_def RemoveAll_def split: option.splits)
          show ?thesis
            using frame2 keep2 by (simp add: relocates_def res)
        next
          case True
          with run li mk rd loop have res: "fs' = delNode src fs2" "r = None"
            by (auto simp: MkdirAll_def RemoveAll_def)
          have "Lstat fs' q = Lstat fs q" if "outside src dst q" for q
            using that frame2 [OF that] by (simp add: res Lstat_delNode outside_def)
          moreover have "fileAt fs' (dst @ rel) = Some c" if "fileAt fs (src @ rel) = Some c" for rel c
          proof -
            have "\<not> prefix src (dst @ rel)"
              using apart_ext [OF sd ds, of "[]" rel] by simp
            then have "Lstat fs' (dst @ rel) = Lstat fs2 (dst @ rel)"
              by (simp add: res Lstat_delNode)
            then show ?thesis
              using all2 [OF _ that] True fileAt_cong [of fs' "dst @ rel" fs2] by simp
          qed
          ultimately show ?thesis
            by (simp add: relocates_def)
        qed
      qed
    qed
  qed
qed

lemma copyAndDelete_relocates:
  "\<not> prefix src dst \<Longrightarrow> \<not> prefix dst src \<Longrightarrow>
     copyAndDelete d t fs src dst isDir = (fs', r) \<Longrightarrow> relocates src dst fs fs' r"
  by (auto simp: copyAndDelete_def copyDirAndDelete_relocates copyFileAndDelete_relocates
      split: if_splits)

section \<open>Moving to the trash\<close>

lemma Rename_relocates:
  assumes "Rename ms fs src dst = Inr fs'"
  shows "relocates src dst fs fs' None"
proof -
  have "Lstat fs' q = Lstat fs q" if "outside src dst q" for q
    using Rename_frame [OF assms, of q] that by (simp add: outside_def)
  moreover have "fileAt fs' (dst @ rel) = fileAt fs (src @ rel)" for rel
    using Rename_moved [OF assms, of rel] by (simp add: fileAt_def)
  ultimately show ?thesis
    by (simp add: relocates_def)
qed

lemma WriteFile_frame:
  assumes "WriteFile t fs p c = Inr fs'" and "\<not> prefix p q"
  shows "Lstat fs' q = Lstat fs q"
  using WriteFile_Inr [OF assms(1)] assms(2) by (auto simp: Lstat_putNode)

lemma ReadDir_entry:
  assumes "ReadDir fs p = Inr entries" and "Lstat fs (p @ [x]) = Inr i"
  shows "(x, i) \<in> set entries"
proof -
  from assms(1) obtain t kids where dir: "nodeAt p fs = Inr (Dir t kids)"
    and entries: "entries = map (\<lambda>(x, k). (x, infoOf k)) (sortedKids kids)"
    by (auto simp: ReadDir_def split: sum.splits node.splits)
  from assms(2) obtain k where "map_of kids x = Some k" and "i = infoOf k"
    by (auto simp: Lstat_def nodeAt_append dir split: option.splits sum.splits)
  then have "(x, k) \<in> set (sortedKids kids)" and "i = infoOf k"
    by (simp_all add: in_sortedKids)
  then show ?thesis
    by (force simp: entries)
qed

text \<open>A directory is never copied into itself: the recursion ends in an error.\<close>

lemma copyEntries_into_itself:
  assumes step: "\<And>g. snd (copyDirAndDelete d t g (src @ [x]) (dst @ [x])) \<noteq> None"
    and "(x, i) \<in> set entries" and "IsDir i"
  shows "snd (copyEntries d t fs src dst entries) \<noteq> None"
  using assms(2)
proof (induction entries arbitrary: fs)
  case Nil
  then show ?case by simp
next
  case (Cons e rest)
  obtain y j where e: "e = (y, j)"
    by (cases e)
  obtain g1 r1 where first:
    "(if IsDir j then copyDirAndDelete d t fs (src @ [y]) (dst @ [y])
      else copyFileAndDelete t fs (src @ [y]) (dst @ [y])) = (g1, r1)"
    by (cases "if IsDir j then copyDirAndDelete d t fs (src @ [y]) (dst @ [y])
      else copyFileAndDelete t fs (src @ [y]) (dst @ [y])")
  show ?case
  proof (cases r1)
    case (Some err)
    with first show ?thesis
      by (simp add: e)
  next
    case None
    have "e \<noteq> (x, i)"
    proof
      assume "e = (x, i)"
      with e first None assms(3) have "snd (copyDirAndDelete d t fs (src @ [x]) (dst @ [x])) = None"
        by simp
      with step show False by blast
    qed
    with Cons.prems have "(x, i) \<in> set rest"
      by simp
    from Cons.IH [OF this] first None show ?thesis
      by (simp add: e)
  qed
qed

lemma copyDirAndDelete_into_itself:
  "prefix src dst \<Longrightarrow> src \<noteq> dst \<Longrightarrow> snd (copyDirAndDelete d t fs src dst) \<noteq> None"
proof (induction d arbitrary: fs src dst)
  case 0
  show ?case by simp
next
  case (Suc d)
  from Suc.prems obtain zs where "dst = src @ zs" and "zs \<noteq> []"
    by (auto simp: prefix_def)
  then obtain x rest where dst: "dst = src @ x # rest"
    by (cases zs) auto
  show ?case
  proof (cases "Stat fs src")
    case (Inl e)
    then show ?thesis by simp
  next
    case li: (Inr srcInfo)
    show ?thesis
    proof (cases "mkdirPath t dst fs")
      case (Inl e)
      with li show ?thesis
        by (simp add: MkdirAll_def)
    next
      case mk: (Inr fs1)
      show ?thesis
      proof (cases "ReadDir fs1 src")
        case (Inl e)
        with li mk show ?thesis
          by (simp add: MkdirAll_def)
      next
        case rd: (Inr entries)
        have "prefix (src @ [x]) dst"
          by (simp add: dst)
        from mkdirPath_makes_dirs [OF mk this] obtain tx where
          "Lstat fs1 (src @ [x]) = Inr (DirInfo tx)"
          by blast
        from ReadDir_entry [OF rd this] have entry: "(x, DirInfo tx) \<in> set entries" .
        have "prefix (src @ [x]) (dst @ [x])" and "src @ [x] \<noteq> dst @ [x]"
          by (simp_all add: dst)
        then have "snd (copyDirAndDelete d t g (src @ [x]) (dst @ [x])) \<noteq> None" for g
          by (rule Suc.IH)
        from copyEntries_into_itself [OF this entry]
        have "snd (copyEntries d t fs1 src dst entries) \<noteq> None"
          by simp
        with li mk rd show ?thesis
          by (auto simp: MkdirAll_def split: prod.splits option.splits)
      qed
    qed
  qed
qed

lemma mkdirPath_fileAt:
  assumes "mkdirPath t p fs = Inr fs'"
  shows "fileAt fs' q = fileAt fs q"
proof (cases "present fs q")
  case True
  from mkdirPath_keeps_info [OF assms True] show ?thesis
    by (rule fileAt_cong)
next
  case False
  then have none: "fileAt fs q = None"
    by (auto simp: present_iff fileAt_def split: sum.splits)
  show ?thesis
  proof (cases "prefix q p")
    case True
    from mkdirPath_makes_dirs [OF assms True] obtain t' where "Lstat fs' q = Inr (DirInfo t')"
      by blast
    then have "fileAt fs' q = None"
      by (simp add: fileAt_Lstat)
    with none show ?thesis
      by simp
  next
    case False
    from mkdirPath_apart [OF assms False] show ?thesis
      by (simp add: fileAt_def)
  qed
qed

lemma butlast_addExt: "p \<noteq> [] \<Longrightarrow> butlast (addExt p e) = butlast p"
  by (simp add: addExt_def)

lemma trashTarget_nonempty: "trashTarget os cfg p \<noteq> []"
  by (simp add: trashTarget_def)

lemma trashDest_cases:
  "trashDest os cfg fs p = trashTarget os cfg p
   \<or> trashDest os cfg fs p = addExt (trashTarget os cfg p) (''.'' @ layout os (now os))"
  by (simp add: trashDest_def split: sum.splits)

lemma length_trashDest: "length (trashDest os cfg fs p) = length (TrashDir cfg) + 1 + length p"
  using trashDest_cases [of os cfg fs p] length_addExt [OF trashTarget_nonempty, of os cfg p]
  by (auto simp: trashTarget_def)

lemma butlast_trashDest: "butlast (trashDest os cfg fs p) = butlast (trashTarget os cfg p)"
  using trashDest_cases [of os cfg fs p] butlast_addExt [OF trashTarget_nonempty, of os cfg p]
  by auto

lemma trashDest_nonempty: "trashDest os cfg fs p \<noteq> []"
  using length_trashDest [of os cfg fs p] by auto

lemma trashDest_apart:
  assumes "\<not> prefix p (trashTarget os cfg p)"
  shows "\<not> prefix p (trashDest os cfg fs p)" and "\<not> prefix (trashDest os cfg fs p) p"
proof -
  show "\<not> prefix (trashDest os cfg fs p) p"
    using length_trashDest [of os cfg fs p] by (auto dest: prefix_length_le)
  show "\<not> prefix p (trashDest os cfg fs p)"
  proof
    assume pre: "prefix p (trashDest os cfg fs p)"
    have "p \<noteq> trashDest os cfg fs p"
      using length_trashDest [of os cfg fs p] by auto
    from prefix_proper_butlast [OF pre this] have "prefix p (butlast (trashTarget os cfg p))"
      by (simp add: butlast_trashDest)
    with assms show False
      using prefix_butlast by blast
  qed
qed

lemma prefix_TrashDir_trashDest: "prefix (TrashDir cfg) (trashDest os cfg fs p @ rel)"
proof -
  have "prefix (TrashDir cfg) (butlast (trashTarget os cfg p))"
    by (simp add: trashTarget_def butlast_append)
  then have "prefix (TrashDir cfg) (trashDest os cfg fs p)"
    using prefix_butlast [of "TrashDir cfg" "trashDest os cfg fs p"] by (simp add: butlast_trashDest)
  then show ?thesis
    by (meson prefix_order.trans prefixI)
qed

text \<open>The run of \<^verbatim>\<open>Move\<close>, step by step.\<close>

lemma Move_steps:
  assumes "Move os cfg fs p = (fs', res)"
  shows "(fs' = fs \<and> (\<exists>e. res = Inl e))
    \<or> (\<exists>i fs1 fs2 r. Lstat fs p = Inr i
         \<and> mkdirPath (now os) (butlast (trashDest os cfg fs p)) fs = Inr fs1
         \<and> (case Rename (mounts os) fs1 p (trashDest os cfg fs p) of
               Inr g \<Rightarrow> (g, None)
             | Inl e \<Rightarrow> copyAndDelete (maxDepth os) (now os) fs1 p (trashDest os cfg fs p) (IsDir i))
             = (fs2, r)
         \<and> (case r of
               Some e \<Rightarrow> fs' = fs2 \<and> res = Inl (OsError e)
             | None \<Rightarrow> res = Inr (trashDest os cfg fs p)
                 \<and> (fs' = fs2
                    \<or> (\<exists>m. WriteFile (now os) fs2 (addExt (trashDest os cfg fs p) metaSuffix)
                              (MetaJSON m) = Inr fs'))))"
proof (cases "Lstat fs p")
  case (Inl e)
  with assms show ?thesis
    by (auto simp: Move_def)
next
  case li: (Inr i)
  show ?thesis
  proof (cases "mkdirPath (now os) (butlast (trashDest os cfg fs p)) fs")
    case (Inl e)
    with assms li show ?thesis
      by (auto simp: Move_def Let_def MkdirAll_def)
  next
    case mk: (Inr fs1)
    obtain fs2 r where step:
      "(case Rename (mounts os) fs1 p (trashDest os cfg fs p) of
          Inr g \<Rightarrow> (g, None)
        | Inl e \<Rightarrow> copyAndDelete (maxDepth os) (now os) fs1 p (trashDest os cfg fs p) (IsDir i))
        = (fs2, r)"
      by (cases "case Rename (mounts os) fs1 p (trashDest os cfg fs p) of
          Inr g \<Rightarrow> (g, None)
        | Inl e \<Rightarrow> copyAndDelete (maxDepth os) (now os) fs1 p (trashDest os cfg fs p) (IsDir i)")
    from assms li mk step
    have "case r of
            Some e \<Rightarrow> fs' = fs2 \<and> res = Inl (OsError e)
          | None \<Rightarrow> res = Inr (trashDest os cfg fs p)
              \<and> (fs' = fs2
                 \<or> (\<exists>m. WriteFile (now os) fs2 (addExt (trashDest os cfg fs p) metaSuffix)
                           (MetaJSON m) = Inr fs'))"
      by (auto simp: Move_def Let_def MkdirAll_def writeMetadata_def split: option.splits sum.splits)
    with li mk step show ?thesis
      by blast
  qed
qed

lemma Move_step_relocates:
  assumes "\<not> prefix p loc" and "\<not> prefix loc p"
    and "(case Rename ms fs1 p loc of
            Inr g \<Rightarrow> (g, None)
          | Inl e \<Rightarrow> copyAndDelete d t fs1 p loc isDir) = (fs2, r)"
  shows "relocates p loc fs1 fs2 r"
proof (cases "Rename ms fs1 p loc")
  case (Inr g)
  with assms(3) Rename_relocates [OF Inr] show ?thesis
    by simp
next
  case (Inl e)
  with assms(3) copyAndDelete_relocates [OF assms(1,2)] show ?thesis
    by simp
qed

lemma Move_keeps_files:
  assumes apart: "\<not> prefix p (trashTarget os cfg p)"
    and run: "Move os cfg fs p = (fs', res)"
    and src: "fileAt fs (p @ rel) = Some c"
  shows "fileAt fs' (p @ rel) = Some c \<or> fileAt fs' (trashDest os cfg fs p @ rel) = Some c"
    and "\<forall>loc. res = Inr loc \<longrightarrow> fileAt fs' (loc @ rel) = Some c"
proof -
  let ?loc = "trashDest os cfg fs p"
  let ?s = "addExt ?loc metaSuffix"
  note ap = trashDest_apart [OF apart, of fs]
  have both: "(fileAt fs' (p @ rel) = Some c \<or> fileAt fs' (?loc @ rel) = Some c)
      \<and> (\<forall>loc. res = Inr loc \<longrightarrow> fileAt fs' (loc @ rel) = Some c)"
    using Move_steps [OF run]
  proof (elim disjE exE conjE)
    fix e assume "fs' = fs" and "res = Inl e"
    with src show ?thesis by simp
  next
    fix i fs1 fs2 r
    assume mk: "mkdirPath (now os) (butlast ?loc) fs = Inr fs1"
      and step: "(case Rename (mounts os) fs1 p ?loc of
               Inr g \<Rightarrow> (g, None)
             | Inl e \<Rightarrow> copyAndDelete (maxDepth os) (now os) fs1 p ?loc (IsDir i)) = (fs2, r)"
      and fin: "case r of
               Some e \<Rightarrow> fs' = fs2 \<and> res = Inl (OsError e)
             | None \<Rightarrow> res = Inr ?loc
                 \<and> (fs' = fs2 \<or> (\<exists>m. WriteFile (now os) fs2 ?s (MetaJSON m) = Inr fs'))"
    have f1: "fileAt fs1 (p @ rel) = Some c"
      using mkdirPath_fileAt [OF mk] src by simp
    from Move_step_relocates [OF ap step] have rl: "relocates p ?loc fs1 fs2 r" .
    show ?thesis
    proof (cases r)
      case (Some e)
      with fin have "fs' = fs2" and "res = Inl (OsError e)"
        by simp_all
      with rl f1 show ?thesis
        by (simp add: relocates_def)
    next
      case None
      with rl f1 have at2: "fileAt fs2 (?loc @ rel) = Some c"
        by (simp add: relocates_def)
      from None fin have res: "res = Inr ?loc"
        and fs': "fs' = fs2 \<or> (\<exists>m. WriteFile (now os) fs2 ?s (MetaJSON m) = Inr fs')"
        by simp_all
      have "\<not> prefix ?s (?loc @ rel)"
        by (rule addExt_apart(1) [OF trashDest_nonempty metaSuffix_nonempty])
      then have "Lstat fs' (?loc @ rel) = Lstat fs2 (?loc @ rel)"
        using fs' WriteFile_frame by blast
      then have "fileAt fs' (?loc @ rel) = Some c"
        using at2 fileAt_cong [of fs' "?loc @ rel" fs2] by simp
      with res show ?thesis
        by simp
    qed
  qed
  from both show "fileAt fs' (p @ rel) = Some c \<or> fileAt fs' (?loc @ rel) = Some c"
    by blast
  from both show "\<forall>loc. res = Inr loc \<longrightarrow> fileAt fs' (loc @ rel) = Some c"
    by blast
qed


text \<open>
  Everywhere else the property holds. \<^verbatim>\<open>processPath\<close> leaves the file system as it
  was or as \<^verbatim>\<open>Move\<close> of the path leaves it. When the destination computed in the
  trash does not lie inside the item itself, every file of the item is, when
  \<^verbatim>\<open>processPath\<close> returns, with or without an error and whether the move was a rename
  or the copy and delete fallback, either still at its place with its content or
  below the trash root with its content, at its place below the destination of the
  move.
\<close>

theorem processPath_moves_before_it_removes:
  assumes "\<not> prefix (components (Abs (workDir h) p))
              (trashTarget os cfg (components (Abs (workDir h) p)))"
    and "processPath h os cfg opts fs stdin p = (fs', stdin', r)"
    and "fileAt fs (components (Abs (workDir h) p) @ rel) = Some c"
  shows "(fs' = fs \<or> (\<exists>res. Move os cfg fs (components (Abs (workDir h) p)) = (fs', res)))
       \<and> (fileAt fs' (components (Abs (workDir h) p) @ rel) = Some c
          \<or> fileAt fs' (trashDest os cfg fs (components (Abs (workDir h) p)) @ rel) = Some c)
       \<and> prefix (TrashDir cfg) (trashDest os cfg fs (components (Abs (workDir h) p)) @ rel)"
proof -
  let ?p = "components (Abs (workDir h) p)"
  have only: "fs' = fs \<or> (\<exists>res. Move os cfg fs ?p = (fs', res))"
    using assms(2)
    by (auto simp: processPath_def Let_def split: sum.splits option.splits prod.splits
        if_splits bool.splits)
  then have "fileAt fs' (?p @ rel) = Some c \<or> fileAt fs' (trashDest os cfg fs ?p @ rel) = Some c"
    using Move_keeps_files(1) [OF assms(1) _ assms(3)] assms(3) by blast
  with only show ?thesis
    using prefix_TrashDir_trashDest by blast
qed

theorem processPath_moves_before_it_removes_witness:
  "\<not> prefix (components (Abs (workDir sampleHost) ''/home/u/d''))
       (trashTarget crossDeviceOs sampleConfig (components (Abs (workDir sampleHost) ''/home/u/d'')))
   \<and> snd (processPath sampleHost crossDeviceOs sampleConfig recursiveOptions homeTree []
            ''/home/u/d'') = ([], None)
   \<and> fileAt homeTree [''home'', ''u'', ''d'', ''a''] = Some (Bytes ''A'')
   \<and> fileAt (fst (processPath sampleHost crossDeviceOs sampleConfig recursiveOptions homeTree []
                    ''/home/u/d'')) [''home'', ''u'', ''d'', ''a''] = None
   \<and> fileAt (fst (processPath sampleHost crossDeviceOs sampleConfig recursiveOptions homeTree []
                    ''/home/u/d'')) [''t'', ''h'', ''home'', ''u'', ''d'', ''a''] = Some (Bytes ''A'')"
proof -
  let ?run = "processPath sampleHost crossDeviceOs sampleConfig recursiveOptions homeTree []
                ''/home/u/d''"
  have p: "components (Abs (workDir sampleHost) ''/home/u/d'') = [''home'', ''u'', ''d'']"
    by code_simp
  have a: "\<not> prefix [''home'', ''u'', ''d'']
      (trashTarget crossDeviceOs sampleConfig [''home'', ''u'', ''d''])"
    by code_simp
  have d: "trashDest crossDeviceOs sampleConfig homeTree [''home'', ''u'', ''d'']
      = [''t'', ''h'', ''home'', ''u'', ''d'']"
    by code_simp
  have r: "snd ?run = ([], None)"
    by code_simp
  have f: "fileAt homeTree ([''home'', ''u'', ''d''] @ [''a'']) = Some (Bytes ''A'')"
    by code_simp
  have g: "fileAt (fst ?run) [''home'', ''u'', ''d'', ''a''] = None"
    by code_simp
  have "?run = (fst ?run, fst (snd ?run), snd (snd ?run))"
    by simp
  from processPath_moves_before_it_removes
    [of sampleHost "''/home/u/d''" crossDeviceOs sampleConfig recursiveOptions homeTree "[]"
      "fst ?run" "fst (snd ?run)" "snd (snd ?run)" "[''a'']" "Bytes ''A''"]
    this a f g
  have "fileAt (fst ?run) [''t'', ''h'', ''home'', ''u'', ''d'', ''a''] = Some (Bytes ''A'')"
    by (simp add: p d)
  with a r f g show ?thesis
    by (simp add: p)
qed

end
